theory Spec2Isabelle
  imports Complex_Main
begin

section \<open>Data model of the ZMP optimizer\<close>

text \<open>
  A finite \<open>double\<close> is modelled by the \<^typ>\<open>real\<close> it denotes, and the arithmetic that
  computes matrix entries is exact: the development is about the formulas the builders
  write into the matrices, not about the rounding of an entry.  The quotient
  \<open>duration / dt\<close> is different, since its floor decides how many rows are built: it is
  rounded to the nearest \<open>double\<close> as the machine does.  Indices and ids (\<open>int\<close> in the
  source) are natural numbers.
\<close>

text \<open>
  The exceptions of the source, \<open>eigen_assert\<close> for an Eigen access outside the
  dimensions (an assertion failure in a debug build, undefined otherwise), and
  \<open>undefined_conversion\<close> for the conversion to \<open>int\<close> of a \<open>double\<close> whose value does not fit
  (undefined behaviour).  A computation that may throw returns a sum, \<open>Inl\<close> holding the
  exception.
\<close>

datatype exn = runtime_error | length_error | out_of_range | eigen_assert | undefined_conversion

definition bindE :: "'e + 'a \<Rightarrow> ('a \<Rightarrow> 'e + 'b) \<Rightarrow> 'e + 'b" where
  "bindE m f = (case m of Inl e \<Rightarrow> Inl e | Inr x \<Rightarrow> f x)"

text \<open>A \<open>for\<close> loop over a range whose body may throw: the first exception ends it.\<close>

fun foldE :: "('i \<Rightarrow> 's \<Rightarrow> 'e + 's) \<Rightarrow> 'i list \<Rightarrow> 's \<Rightarrow> 'e + 's" where
  "foldE f [] s = Inr s"
| "foldE f (x # xs) s = bindE (f x s) (foldE f xs)"

text \<open>A block of statements executed in order.\<close>

fun do_all :: "('s \<Rightarrow> 'e + 's) list \<Rightarrow> 's \<Rightarrow> 'e + 's" where
  "do_all [] s = Inr s"
| "do_all (c # cs) s = bindE (c s) (do_all cs)"

named_theorems idx \<open>values of the enumeration constants and index arithmetic\<close>

text \<open>\<open>enum Coords { X, Y, Z }\<close> and \<open>enum SplineCoeff { A, B, C, D, E, F }\<close>, used as
  integers by the source (\<open>last_spline + B\<close>, \<open>dim <= Y\<close>).\<close>

definition X :: nat where [idx]: "X = 0"
definition Y :: nat where [idx]: "Y = 1"
definition Z :: nat where [idx]: "Z = 2"

definition A :: nat where [idx]: "A = 0"
definition B :: nat where [idx]: "B = 1"
definition C :: nat where [idx]: "C = 2"
definition D :: nat where [idx]: "D = 3"
definition E :: nat where [idx]: "E = 4"
definition F :: nat where [idx]: "F = 5"

text \<open>Modelled from the spec: \<open>kDim2d\<close> and \<open>kOptCoeff\<close> are declared in a header that is
  not part of the sources; the spec counts "2 axes" and "4 free coefficients".\<close>

definition kDim2d :: nat where [idx]: "kDim2d = 2"
definition kOptCoeff :: nat where [idx]: "kOptCoeff = 4"

text \<open>Modelled from the spec: \<open>S::var_index\<close> is declared in a header that is not part of the
  sources.  The spec calls it a bijective, contiguous mapping from (segment, axis, letter)
  to integers; the source adds the letter to \<open>var_index(s, dim, A)\<close> and lays out
  \<open>kOptCoeff\<close> entries for x followed by \<open>kOptCoeff\<close> entries for y per segment.\<close>

definition var_index :: "nat \<Rightarrow> nat \<Rightarrow> nat \<Rightarrow> nat" where
  "var_index spline dm coeff = kOptCoeff * kDim2d * spline + kOptCoeff * dm + coeff"

text \<open>Modelled from the spec: \<open>cache_exponents<N>(t)\<close> is declared in a header that is not
  part of the sources; it is the table of the powers \<open>t^0, \<dots>, t^(N-1)\<close> ("precompute the
  power table").\<close>

definition cache_exponents :: "nat \<Rightarrow> real \<Rightarrow> real list" where
  "cache_exponents N t = map (\<lambda>e. t ^ e) [0..<N]"

section \<open>Double-precision quotients\<close>

text \<open>A \<open>double\<close> is a finite number, an infinity or not a number.  The zero of the model
  is \<open>+0.0\<close>.\<close>

datatype double = Finite real | PlusInfinity | MinusInfinity | NaN

text \<open>The number of binary digits of a natural number, and \<open>floor(log\<^sub>2 x)\<close> of a positive
  real.\<close>

fun bit_length :: "nat \<Rightarrow> nat" where
  "bit_length n = (if n = 0 then 0 else Suc (bit_length (n div 2)))"

declare bit_length.simps [simp del]

definition ilog2 :: "real \<Rightarrow> int" where
  "ilog2 x = (if 1 \<le> x then int (bit_length (nat \<lfloor>x\<rfloor>)) - 1
              else - int (bit_length (nat (\<lceil>1 / x\<rceil> - 1))))"

definition pow2 :: "int \<Rightarrow> real" where
  "pow2 e = (if 0 \<le> e then 2 ^ nat e else 1 / 2 ^ nat (- e))"

definition round_half_even :: "real \<Rightarrow> int" where
  "round_half_even x =
     (let n = \<lfloor>x\<rfloor>; d = x - of_int n
      in if d < 1 / 2 then n else if 1 / 2 < d then n + 1 else if even n then n else n + 1)"

text \<open>Rounding of a real to IEEE 754 binary64, to nearest and ties to even: 53 significant
  bits, the unit in the last place not below \<open>2\<^sup>-\<^sup>1\<^sup>0\<^sup>7\<^sup>4\<close> (subnormal numbers), and an
  infinity when the rounded magnitude reaches \<open>2\<^sup>1\<^sup>0\<^sup>2\<^sup>4\<close>.\<close>

definition double_round :: "real \<Rightarrow> double" where
  "double_round x =
     (if x = 0 then Finite 0
      else
       (let e = max (- 1074) (ilog2 \<bar>x\<bar> - 52);
            y = of_int (round_half_even (\<bar>x\<bar> / pow2 e)) * pow2 e
        in if pow2 1024 \<le> y then (if 0 < x then PlusInfinity else MinusInfinity)
           else Finite (if 0 < x then y else - y)))"

text \<open>The quotient \<open>a / b\<close> of two finite doubles, \<open>std::floor\<close>, the comparison \<open>x < y\<close> of a
  finite \<open>x\<close> with a double \<open>y\<close>, and the conversion of a double to \<open>int\<close> (32 bits), which
  truncates and is undefined when the truncated value does not fit.\<close>

definition double_div :: "real \<Rightarrow> real \<Rightarrow> double" where
  "double_div a b =
     (if b = 0 then (if a = 0 then NaN else if 0 < a then PlusInfinity else MinusInfinity)
      else double_round (a / b))"

fun double_floor :: "double \<Rightarrow> double" where
  "double_floor (Finite x) = Finite (of_int \<lfloor>x\<rfloor>)"
| "double_floor PlusInfinity = PlusInfinity"
| "double_floor MinusInfinity = MinusInfinity"
| "double_floor NaN = NaN"

fun less_double :: "real \<Rightarrow> double \<Rightarrow> bool" where
  "less_double x (Finite y) = (x < y)"
| "less_double x PlusInfinity = True"
| "less_double x MinusInfinity = False"
| "less_double x NaN = False"

fun double_to_int :: "double \<Rightarrow> int option" where
  "double_to_int (Finite x) =
     (let n = (if 0 \<le> x then \<lfloor>x\<rfloor> else \<lceil>x\<rceil>)
      in if - (2 ^ 31) \<le> n \<and> n < 2 ^ 31 then Some n else None)"
| "double_to_int PlusInfinity = None"
| "double_to_int MinusInfinity = None"
| "double_to_int NaN = None"

text \<open>The value of a decimal literal of the source is the nearest double (the literals
  of this file are far inside the range).\<close>

definition double_literal :: "real \<Rightarrow> real" where
  "double_literal x = (case double_round x of Finite y \<Rightarrow> y | _ \<Rightarrow> 0)"

section \<open>Splines, vectors and matrices\<close>

type_synonym Vector2d = "real \<times> real"

fun at2 :: "Vector2d \<Rightarrow> nat \<Rightarrow> real" where
  "at2 (x, y) dm = (if dm = X then x else y)"

text \<open>Modelled from the spec: \<open>ZmpSpline\<close> is declared in a header that is not part of the
  sources.  A spline segment has an identity (its sequence position), a duration, the index
  of its step and a full-support flag; the source reads them as the members \<open>id_\<close>,
  \<open>duration_\<close>, \<open>step_\<close> and \<open>four_leg_supp_\<close>.  A name may not end in an underscore here,
  so the fields drop it (\<open>id_\<close> is \<open>spline_id\<close>).\<close>

record ZmpSpline =
  spline_id :: nat
  duration :: real
  four_leg_supp :: bool
  step :: nat

subsection \<open>Eigen matrices and vectors\<close>

text \<open>
  A dense matrix is its coefficients together with its dimensions, a dense vector its
  elements together with its size.  Every access checks the dimensions, as Eigen's
  assertions do, so no theorem below speaks about an access outside them.
\<close>

record MatrixXd =
  coeffs :: "nat \<Rightarrow> nat \<Rightarrow> real"
  rows :: nat
  cols :: nat

record VectorXd =
  elems :: "nat \<Rightarrow> real"
  vsize :: nat

definition MatrixXd_Zero :: "nat \<Rightarrow> nat \<Rightarrow> MatrixXd" where
  "MatrixXd_Zero nrows ncols = \<lparr>coeffs = (\<lambda>_ _. 0), rows = nrows, cols = ncols\<rparr>"

definition VectorXd_Zero :: "nat \<Rightarrow> VectorXd" where
  "VectorXd_Zero n = \<lparr>elems = (\<lambda>_. 0), vsize = n\<rparr>"

text \<open>\<open>m(i, j) = x\<close> and the read \<open>m(i, j)\<close>.\<close>

definition set_coeff :: "nat \<Rightarrow> nat \<Rightarrow> real \<Rightarrow> MatrixXd \<Rightarrow> exn + MatrixXd" where
  "set_coeff i j x m =
     (if i < rows m \<and> j < cols m then Inr (m\<lparr>coeffs := (coeffs m)(i := (coeffs m i)(j := x))\<rparr>)
      else Inl eigen_assert)"

definition get_coeff :: "nat \<Rightarrow> nat \<Rightarrow> MatrixXd \<Rightarrow> exn + real" where
  "get_coeff i j m = (if i < rows m \<and> j < cols m then Inr (coeffs m i j) else Inl eigen_assert)"

text \<open>\<open>m.col(j) += vec\<close>, \<open>m.col(j) = vec\<close> and the read \<open>m.col(j)\<close>.\<close>

definition add_col :: "nat \<Rightarrow> VectorXd \<Rightarrow> MatrixXd \<Rightarrow> exn + MatrixXd" where
  "add_col j vec m =
     (if j < cols m \<and> vsize vec = rows m
      then Inr (m\<lparr>coeffs := (\<lambda>i. if i < rows m then (coeffs m i)(j := coeffs m i j + elems vec i)
                                  else coeffs m i)\<rparr>)
      else Inl eigen_assert)"

definition set_col :: "nat \<Rightarrow> VectorXd \<Rightarrow> MatrixXd \<Rightarrow> exn + MatrixXd" where
  "set_col j vec m =
     (if j < cols m \<and> vsize vec = rows m
      then Inr (m\<lparr>coeffs := (\<lambda>i. if i < rows m then (coeffs m i)(j := elems vec i)
                                  else coeffs m i)\<rparr>)
      else Inl eigen_assert)"

definition get_col :: "nat \<Rightarrow> MatrixXd \<Rightarrow> exn + VectorXd" where
  "get_col j m =
     (if j < cols m then Inr \<lparr>elems = (\<lambda>i. if i < rows m then coeffs m i j else 0), vsize = rows m\<rparr>
      else Inl eigen_assert)"

text \<open>\<open>vec(i) = x\<close>, \<open>vec(i) += x\<close>, \<open>t * vec\<close>, \<open>a.cwiseProduct(b)\<close> and
  \<open>vec.middleRows(start, n) = x\<close> for a block filled with one value.\<close>

definition set_elem :: "nat \<Rightarrow> real \<Rightarrow> VectorXd \<Rightarrow> exn + VectorXd" where
  "set_elem i x vec =
     (if i < vsize vec then Inr (vec\<lparr>elems := (elems vec)(i := x)\<rparr>) else Inl eigen_assert)"

definition add_elem :: "nat \<Rightarrow> real \<Rightarrow> VectorXd \<Rightarrow> exn + VectorXd" where
  "add_elem i x vec =
     (if i < vsize vec then Inr (vec\<lparr>elems := (elems vec)(i := elems vec i + x)\<rparr>)
      else Inl eigen_assert)"

definition scale :: "real \<Rightarrow> VectorXd \<Rightarrow> VectorXd" where
  "scale t vec = vec\<lparr>elems := (\<lambda>i. t * elems vec i)\<rparr>"

definition cwiseProduct :: "VectorXd \<Rightarrow> VectorXd \<Rightarrow> exn + VectorXd" where
  "cwiseProduct a b =
     (if vsize a = vsize b then Inr \<lparr>elems = (\<lambda>i. elems a i * elems b i), vsize = vsize a\<rparr>
      else Inl eigen_assert)"

definition fill_middleRows :: "nat \<Rightarrow> nat \<Rightarrow> real \<Rightarrow> VectorXd \<Rightarrow> exn + VectorXd" where
  "fill_middleRows start n x vec =
     (if start + n \<le> vsize vec
      then Inr (vec\<lparr>elems := (\<lambda>i. if start \<le> i \<and> i < start + n then x else elems vec i)\<rparr>)
      else Inl eigen_assert)"

text \<open>Modelled from the spec: \<open>MatVec\<close> is declared in a header that is not part of the
  sources.  \<open>MatVec(rows, cols)\<close> holds a zero matrix \<open>M\<close> with one row per coefficient and one
  column per constraint, and a zero vector \<open>v\<close> with one entry per constraint: the builders
  rely on the zeros (\<open>ec.v(i) += \<dots>\<close>).\<close>

record MatVec =
  M :: MatrixXd
  v :: VectorXd

definition MatVec_new :: "nat \<Rightarrow> nat \<Rightarrow> MatVec" where
  "MatVec_new nrows ncols = \<lparr>M = MatrixXd_Zero nrows ncols, v = VectorXd_Zero ncols\<rparr>"

text \<open>A statement on the member \<open>M\<close>, or on the member \<open>v\<close>, of a \<open>MatVec\<close>.\<close>

definition inM :: "(MatrixXd \<Rightarrow> exn + MatrixXd) \<Rightarrow> MatVec \<Rightarrow> exn + MatVec" where
  "inM f mv = (case f (M mv) of Inl e \<Rightarrow> Inl e | Inr m \<Rightarrow> Inr (mv\<lparr>M := m\<rparr>))"

definition inV :: "(VectorXd \<Rightarrow> exn + VectorXd) \<Rightarrow> MatVec \<Rightarrow> exn + MatVec" where
  "inV f mv = (case f (v mv) of Inl e \<Rightarrow> Inl e | Inr x \<Rightarrow> Inr (mv\<lparr>v := x\<rparr>))"

section \<open>The cost function builder\<close>

text \<open>Modelled from the spec: \<open>zmp_splines_.GetOptCoeffCount()\<close> belongs to the spline
  container, which is not part of the sources; "total count = segments \<times> 2 axes \<times> 4 free
  coefficients", as \<open>GetXyDimAlternatingVector\<close> computes it.\<close>

definition GetOptCoeffCount :: "ZmpSpline list \<Rightarrow> nat" where
  "GetOptCoeffCount splines = length splines * kOptCoeff * kDim2d"

text \<open>The mirroring loops of lines 167--169.\<close>

definition mirror_entry :: "nat \<Rightarrow> nat \<Rightarrow> MatrixXd \<Rightarrow> exn + MatrixXd" where
  "mirror_entry c r m = bindE (get_coeff c r m) (\<lambda>x. set_coeff r c x m)"

definition mirror :: "MatrixXd \<Rightarrow> exn + MatrixXd" where
  "mirror m = foldE (\<lambda>c. foldE (\<lambda>r. mirror_entry c r) [c + 1..<rows m]) [0..<cols m] m"

definition cost_dim :: "ZmpSpline \<Rightarrow> Vector2d \<Rightarrow> nat \<Rightarrow> MatVec \<Rightarrow> exn + MatVec" where
  "cost_dim s weight dm cf =
    (let t_span = cache_exponents 10 (duration s);
         a = var_index (spline_id s) dm A;
         b = var_index (spline_id s) dm B;
         c = var_index (spline_id s) dm C;
         d = var_index (spline_id s) dm D
     in do_all
       [inM (set_coeff a a (400 / 7 * t_span ! 7 * at2 weight dm)),
        inM (set_coeff a b (40 * t_span ! 6 * at2 weight dm)),
        inM (set_coeff a c (120 / 5 * t_span ! 5 * at2 weight dm)),
        inM (set_coeff a d (10 * t_span ! 4 * at2 weight dm)),
        inM (set_coeff b b (144 / 5 * t_span ! 5 * at2 weight dm)),
        inM (set_coeff b c (18 * t_span ! 4 * at2 weight dm)),
        inM (set_coeff b d (8 * t_span ! 3 * at2 weight dm)),
        inM (set_coeff c c (12 * t_span ! 3 * at2 weight dm)),
        inM (set_coeff c d (6 * t_span ! 2 * at2 weight dm)),
        inM (set_coeff d d (4 * t_span ! 1 * at2 weight dm)),
        inM mirror] cf)"

definition CreateMinAccCostFunction :: "ZmpSpline list \<Rightarrow> Vector2d \<Rightarrow> exn + MatVec" where
  "CreateMinAccCostFunction splines weight =
    (let n_coeff = GetOptCoeffCount splines
     in foldE (\<lambda>s. foldE (cost_dim s weight) [X..<Suc Y]) splines (MatVec_new n_coeff n_coeff))"

section \<open>Boundary propagation\<close>

text \<open>Modelled from the spec: \<open>DescribeEByPrev\<close> and \<open>DescribeFByPrev\<close> belong to the spline
  container, which is not part of the sources.  The spec has them return the coefficients
  \<open>E\<close> and \<open>F\<close> of segment \<open>k\<close> as "a sparse linear combination over all preceding free
  coefficients plus a scalar constant", where "segment \<open>k\<close>'s \<open>E,F\<close> depend on segment
  \<open>k-1\<close>'s full polynomial evaluated at its own duration": \<open>E\<close> of segment \<open>k\<close> is the velocity
  and \<open>F\<close> the position of segment \<open>k-1\<close> at its end, and the first segment starts at the
  given velocity and position.\<close>

fun E_by_prev :: "ZmpSpline list \<Rightarrow> nat \<Rightarrow> nat \<Rightarrow> real \<Rightarrow> (nat \<Rightarrow> real) \<times> real" where
  "E_by_prev splines 0 dm start_v = (\<lambda>_. 0, start_v)"
| "E_by_prev splines (Suc k) dm start_v =
     (let (Ek, non_dependent) = E_by_prev splines k dm start_v;
          T = duration (splines ! k)
      in (\<lambda>i. Ek i + (if i = var_index k dm A then 5 * T ^ 4
                     else if i = var_index k dm B then 4 * T ^ 3
                     else if i = var_index k dm C then 3 * T ^ 2
                     else if i = var_index k dm D then 2 * T else 0),
          non_dependent))"

fun F_by_prev :: "ZmpSpline list \<Rightarrow> nat \<Rightarrow> nat \<Rightarrow> real \<Rightarrow> real \<Rightarrow> (nat \<Rightarrow> real) \<times> real" where
  "F_by_prev splines 0 dm start_v start_p = (\<lambda>_. 0, start_p)"
| "F_by_prev splines (Suc k) dm start_v start_p =
     (let (Fk, non_dependent_f) = F_by_prev splines k dm start_v start_p;
          (Ek, non_dependent_e) = E_by_prev splines k dm start_v;
          T = duration (splines ! k)
      in (\<lambda>i. Fk i + T * Ek i + (if i = var_index k dm A then T ^ 5
                     else if i = var_index k dm B then T ^ 4
                     else if i = var_index k dm C then T ^ 3
                     else if i = var_index k dm D then T ^ 2 else 0),
          non_dependent_f + T * non_dependent_e))"

text \<open>The callers pass a zero vector with one entry per coefficient, which the helper
  fills; segment \<open>k\<close> must have all its predecessors in the sequence.\<close>

definition DescribeEByPrev ::
  "ZmpSpline list \<Rightarrow> nat \<Rightarrow> nat \<Rightarrow> real \<Rightarrow> nat \<Rightarrow> exn + VectorXd \<times> real" where
  "DescribeEByPrev splines k dm start_v n =
     (if k \<le> length splines \<and> n = GetOptCoeffCount splines
      then Inr (\<lparr>elems = fst (E_by_prev splines k dm start_v), vsize = n\<rparr>,
                snd (E_by_prev splines k dm start_v))
      else Inl out_of_range)"

definition DescribeFByPrev ::
  "ZmpSpline list \<Rightarrow> nat \<Rightarrow> nat \<Rightarrow> real \<Rightarrow> real \<Rightarrow> nat \<Rightarrow> exn + VectorXd \<times> real" where
  "DescribeFByPrev splines k dm start_v start_p n =
     (if k \<le> length splines \<and> n = GetOptCoeffCount splines
      then Inr (\<lparr>elems = fst (F_by_prev splines k dm start_v start_p), vsize = n\<rparr>,
                snd (F_by_prev splines k dm start_v start_p))
      else Inl out_of_range)"

section \<open>The equality constraint builder\<close>

text \<open>The builder's state is the \<open>MatVec\<close> under construction and the counter \<open>i\<close> of
  equality constraints.  \<open>at_row\<close> is a statement that uses \<open>i\<close>, \<open>at_row_inc\<close> one that
  ends in \<open>i++\<close>.\<close>

definition at_row :: "(nat \<Rightarrow> MatVec \<Rightarrow> exn + MatVec) \<Rightarrow> MatVec \<times> nat \<Rightarrow> exn + MatVec \<times> nat" where
  "at_row f = (\<lambda>(ec, i). case f i ec of Inl e \<Rightarrow> Inl e | Inr ec' \<Rightarrow> Inr (ec', i))"

definition at_row_inc :: "(nat \<Rightarrow> MatVec \<Rightarrow> exn + MatVec) \<Rightarrow> MatVec \<times> nat \<Rightarrow> exn + MatVec \<times> nat" where
  "at_row_inc f = (\<lambda>(ec, i). case f i ec of Inl e \<Rightarrow> Inl e | Inr ec' \<Rightarrow> Inr (ec', i + 1))"

definition kAccStart :: Vector2d where "kAccStart = (0, 0)"
definition kJerkStart :: Vector2d where "kJerkStart = (0, 0)"
definition kVelEnd :: Vector2d where "kVelEnd = (0, 0)"
definition kAccEnd :: Vector2d where "kAccEnd = (0, 0)"

text \<open>Lines 199--251, the body of the loop over \<open>dim\<close>, in three parts: the initial
  acceleration and jerk (lines 201--208); the final position, velocity and acceleration
  written with the propagated \<open>E\<close> and \<open>F\<close> (lines 223--250); and the computation of these
  (lines 212--221).  \<open>splines_.back()\<close> needs a non-empty sequence; at an empty one the
  first write above it is already outside the matrix.\<close>

definition eq_initial_dim :: "nat \<Rightarrow> MatVec \<times> nat \<Rightarrow> exn + MatVec \<times> nat" where
  "eq_initial_dim dm st =
    (let d = var_index 0 dm D;
         c = var_index 0 dm C
     in do_all
         [at_row (\<lambda>i. inM (set_coeff d i 2)),
          at_row_inc (\<lambda>i. inV (set_elem i (- at2 kAccStart dm))),
          at_row (\<lambda>i. inM (set_coeff c i 6)),
          at_row_inc (\<lambda>i. inV (set_elem i (- at2 kJerkStart dm)))] st)"

definition eq_final_rows ::
  "nat \<Rightarrow> real list \<Rightarrow> VectorXd \<Rightarrow> real \<Rightarrow> VectorXd \<Rightarrow> real \<Rightarrow> Vector2d \<Rightarrow> nat
     \<Rightarrow> MatVec \<times> nat \<Rightarrow> exn + MatVec \<times> nat" where
  "eq_final_rows last_spline t_duration Ek non_dependent_e Fk non_dependent_f end_cog dm st =
     do_all
       [at_row (\<lambda>i. inM (set_coeff (last_spline + A) i (t_duration ! 5))),
        at_row (\<lambda>i. inM (set_coeff (last_spline + B) i (t_duration ! 4))),
        at_row (\<lambda>i. inM (set_coeff (last_spline + C) i (t_duration ! 3))),
        at_row (\<lambda>i. inM (set_coeff (last_spline + D) i (t_duration ! 2))),
        at_row (\<lambda>i. inM (add_col i (scale (t_duration ! 1) Ek))),
        at_row (\<lambda>i. inM (add_col i Fk)),
        at_row (\<lambda>i. inV (add_elem i (non_dependent_e * t_duration ! 1 + non_dependent_f))),
        at_row_inc (\<lambda>i. inV (add_elem i (- at2 end_cog dm))),
        at_row (\<lambda>i. inM (set_coeff (last_spline + A) i (5 * t_duration ! 4))),
        at_row (\<lambda>i. inM (set_coeff (last_spline + B) i (4 * t_duration ! 3))),
        at_row (\<lambda>i. inM (set_coeff (last_spline + C) i (3 * t_duration ! 2))),
        at_row (\<lambda>i. inM (set_coeff (last_spline + D) i (2 * t_duration ! 1))),
        at_row (\<lambda>i. inM (add_col i Ek)),
        at_row (\<lambda>i. inV (add_elem i non_dependent_e)),
        at_row_inc (\<lambda>i. inV (add_elem i (- at2 kVelEnd dm))),
        at_row (\<lambda>i. inM (set_coeff (last_spline + A) i (20 * t_duration ! 3))),
        at_row (\<lambda>i. inM (set_coeff (last_spline + B) i (12 * t_duration ! 2))),
        at_row (\<lambda>i. inM (set_coeff (last_spline + C) i (6 * t_duration ! 1))),
        at_row (\<lambda>i. inM (set_coeff (last_spline + D) i 2)),
        at_row_inc (\<lambda>i. inV (set_elem i (- at2 kAccEnd dm)))] st"

definition eq_final_dim ::
  "ZmpSpline list \<Rightarrow> Vector2d \<Rightarrow> Vector2d \<Rightarrow> Vector2d \<Rightarrow> nat \<Rightarrow> nat
     \<Rightarrow> MatVec \<times> nat \<Rightarrow> exn + MatVec \<times> nat" where
  "eq_final_dim splines start_cog_p start_cog_v end_cog coeff dm st =
    (if splines = [] then Inl eigen_assert
     else
      (let K = spline_id (last splines);
           last_spline = var_index K dm A;
           t_duration = cache_exponents 6 (duration (last splines))
       in bindE (DescribeEByPrev splines K dm (at2 start_cog_v dm) coeff)
           (\<lambda>(Ek, non_dependent_e).
          bindE (DescribeFByPrev splines K dm (at2 start_cog_v dm) (at2 start_cog_p dm) coeff)
           (\<lambda>(Fk, non_dependent_f).
          eq_final_rows last_spline t_duration Ek non_dependent_e Fk non_dependent_f
            end_cog dm st))))"

definition eq_boundary_dim ::
  "ZmpSpline list \<Rightarrow> Vector2d \<Rightarrow> Vector2d \<Rightarrow> Vector2d \<Rightarrow> nat \<Rightarrow> nat
     \<Rightarrow> MatVec \<times> nat \<Rightarrow> exn + MatVec \<times> nat" where
  "eq_boundary_dim splines start_cog_p start_cog_v end_cog coeff dm st =
     bindE (eq_initial_dim dm st) (eq_final_dim splines start_cog_p start_cog_v end_cog coeff dm)"

text \<open>Lines 257--276, the body of the loop over \<open>dim\<close> at the junction of the segments
  \<open>s\<close> and \<open>s + 1\<close>.\<close>

definition eq_junction_dim ::
  "real list \<Rightarrow> nat \<Rightarrow> nat \<Rightarrow> MatVec \<times> nat \<Rightarrow> exn + MatVec \<times> nat" where
  "eq_junction_dim t_duration s dm st =
    (let curr_spline = var_index s dm A;
         next_spline = var_index (s + 1) dm A
     in do_all
         [at_row (\<lambda>i. inM (set_coeff (curr_spline + A) i (20 * t_duration ! 3))),
          at_row (\<lambda>i. inM (set_coeff (curr_spline + B) i (12 * t_duration ! 2))),
          at_row (\<lambda>i. inM (set_coeff (curr_spline + C) i (6 * t_duration ! 1))),
          at_row (\<lambda>i. inM (set_coeff (curr_spline + D) i 2)),
          at_row (\<lambda>i. inM (set_coeff (next_spline + D) i (- 2))),
          at_row_inc (\<lambda>i. inV (set_elem i 0)),
          at_row (\<lambda>i. inM (set_coeff (curr_spline + A) i (60 * t_duration ! 2))),
          at_row (\<lambda>i. inM (set_coeff (curr_spline + B) i (24 * t_duration ! 1))),
          at_row (\<lambda>i. inM (set_coeff (curr_spline + C) i 6)),
          at_row (\<lambda>i. inM (set_coeff (next_spline + C) i (- 6))),
          at_row_inc (\<lambda>i. inV (set_elem i 0))] st)"

definition eq_junction :: "ZmpSpline list \<Rightarrow> nat \<Rightarrow> MatVec \<times> nat \<Rightarrow> exn + MatVec \<times> nat" where
  "eq_junction splines s st =
    (if s < length splines
     then foldE (eq_junction_dim (cache_exponents 6 (duration (splines ! s))) s) [X..<Suc Y] st
     else Inl out_of_range)"

text \<open>The number of constraints is computed with the unsigned \<open>size() - 1\<close>, which wraps at
  an empty sequence; added to an \<open>int\<close> the wrapped product gives what integer arithmetic
  gives.  The junction loop is not reached at an empty sequence.\<close>

definition n_constraints :: "ZmpSpline list \<Rightarrow> nat" where
  "n_constraints splines =
     nat (int (kDim2d * 2) + int (kDim2d * 3) + (int (length splines) - 1) * int (kDim2d * 2))"

definition CreateEqualityContraints ::
  "ZmpSpline list \<Rightarrow> Vector2d \<Rightarrow> Vector2d \<Rightarrow> Vector2d \<Rightarrow> exn + MatVec" where
  "CreateEqualityContraints splines start_cog_p start_cog_v end_cog =
    (let coeff = GetOptCoeffCount splines;
         constraints = n_constraints splines;
         ec = MatVec_new coeff constraints;
         i = 0
     in bindE (foldE (eq_boundary_dim splines start_cog_p start_cog_v end_cog coeff) [X..<Suc Y] (ec, i))
          (\<lambda>st. bindE (foldE (eq_junction splines) [0..<length splines - 1] st)
            (\<lambda>(ec, i). Inr ec)))"

section \<open>The inequality constraint builder\<close>

text \<open>Modelled from the spec: \<open>SuppTriangle::TrLine\<close> is declared in a header that is not
  part of the sources.  A support-polygon edge line has "half-plane coefficients \<open>(p, q, r)\<close>
  plus a stability margin \<open>s_margin\<close>"; the source reads \<open>l.coeff.p\<close>, \<open>l.coeff.q\<close>,
  \<open>l.coeff.r\<close> and \<open>l.s_margin\<close>.\<close>

record LineCoeff2d =
  p :: real
  q :: real
  r :: real

record TrLine =
  coeff :: LineCoeff2d
  s_margin :: real

text \<open>\<open>LineForConstraint\<close>, lines 382--402.  The support triangles and their \<open>CalcLines\<close>
  belong to the geometry provider; \<open>CalcLines\<close> is a parameter and returns the three edges.
  \<open>n_nodes\<close> is an \<open>int\<close> initialised with the \<open>double\<close> \<open>std::floor(s.duration_/dt)\<close>.
  \<open>supp_triangles.at(s.step_)\<close> throws outside the list.  A negative node count runs the
  loop zero times.\<close>

definition LineForConstraint ::
  "('tri \<Rightarrow> TrLine \<times> TrLine \<times> TrLine) \<Rightarrow> ZmpSpline list \<Rightarrow> 'tri list \<Rightarrow> real
     \<Rightarrow> exn + TrLine list" where
  "LineForConstraint CalcLines splines supp_triangles dt =
     foldE (\<lambda>s line_for_constraint.
        if four_leg_supp s then Inr line_for_constraint
        else
          (case double_to_int (double_floor (double_div (duration s) dt)) of
             None \<Rightarrow> Inl undefined_conversion
           | Some n_nodes \<Rightarrow>
              if step s < length supp_triangles
              then (case CalcLines (supp_triangles ! step s) of (lines0, lines1, lines2) \<Rightarrow>
                     Inr (fold (\<lambda>i acc. acc @ [lines0, lines1, lines2]) [0..<nat n_nodes]
                            line_for_constraint))
              else Inl out_of_range))
       splines []"

text \<open>\<open>GetXyDimAlternatingVector\<close>, lines 405--423.\<close>

definition GetXyDimAlternatingVector :: "ZmpSpline list \<Rightarrow> real \<Rightarrow> real \<Rightarrow> exn + VectorXd" where
  "GetXyDimAlternatingVector splines x y =
    (let n_coeff = length splines * kOptCoeff * kDim2d
     in foldE (\<lambda>s vec.
          bindE (fill_middleRows (var_index (spline_id s) X A) kOptCoeff x vec)
            (fill_middleRows (var_index (spline_id s) Y A) kOptCoeff y))
        splines (VectorXd_Zero n_coeff))"

text \<open>What \<open>CreateInequalityContraints\<close> works on: its local \<open>ineq\<close> and counter \<open>c\<close>, and the
  members \<open>ineq_ipopt_\<close>, \<open>ineq_ipopt_vx_\<close> and \<open>ineq_ipopt_vy_\<close> of the optimizer, which it
  writes as it goes.  An exception carries the state it leaves behind.  The counter \<open>c\<close>
  (an \<open>int\<close>) does not exceed the length of \<open>line_for_constraint\<close>, since \<open>at(c)\<close> guards
  every row.\<close>

record ineq_state =
  l_ineq :: MatVec
  l_ineq_ipopt :: MatrixXd
  l_ineq_ipopt_vx :: VectorXd
  l_ineq_ipopt_vy :: VectorXd
  l_c :: nat

definition stmt :: "('s \<Rightarrow> exn + 's) \<Rightarrow> 's \<Rightarrow> exn \<times> 's + 's" where
  "stmt f s = (case f s of Inl e \<Rightarrow> Inl (e, s) | Inr s' \<Rightarrow> Inr s')"

definition on_ineq :: "(nat \<Rightarrow> MatVec \<Rightarrow> exn + MatVec) \<Rightarrow> ineq_state \<Rightarrow> exn + ineq_state" where
  "on_ineq f st = (case f (l_c st) (l_ineq st) of Inl e \<Rightarrow> Inl e
                   | Inr x \<Rightarrow> Inr (st\<lparr>l_ineq := x\<rparr>))"

definition on_ipopt :: "(nat \<Rightarrow> MatrixXd \<Rightarrow> exn + MatrixXd) \<Rightarrow> ineq_state \<Rightarrow> exn + ineq_state" where
  "on_ipopt f st = (case f (l_c st) (l_ineq_ipopt st) of Inl e \<Rightarrow> Inl e
                    | Inr x \<Rightarrow> Inr (st\<lparr>l_ineq_ipopt := x\<rparr>))"

definition on_vx :: "(nat \<Rightarrow> VectorXd \<Rightarrow> exn + VectorXd) \<Rightarrow> ineq_state \<Rightarrow> exn + ineq_state" where
  "on_vx f st = (case f (l_c st) (l_ineq_ipopt_vx st) of Inl e \<Rightarrow> Inl e
                 | Inr x \<Rightarrow> Inr (st\<lparr>l_ineq_ipopt_vx := x\<rparr>))"

definition on_vy :: "(nat \<Rightarrow> VectorXd \<Rightarrow> exn + VectorXd) \<Rightarrow> ineq_state \<Rightarrow> exn + ineq_state" where
  "on_vy f st = (case f (l_c st) (l_ineq_ipopt_vy st) of Inl e \<Rightarrow> Inl e
                 | Inr x \<Rightarrow> Inr (st\<lparr>l_ineq_ipopt_vy := x\<rparr>))"

text \<open>A call that may throw while the state is \<open>st\<close>.\<close>

definition throwing :: "exn + 'a \<Rightarrow> 's \<Rightarrow> ('a \<Rightarrow> exn \<times> 's + 'b) \<Rightarrow> exn \<times> 's + 'b" where
  "throwing m st f = (case m of Inl e \<Rightarrow> Inl (e, st) | Inr x \<Rightarrow> f x)"

definition get_elem :: "nat \<Rightarrow> VectorXd \<Rightarrow> exn + real" where
  "get_elem i vec = (if i < vsize vec then Inr (elems vec i) else Inl eigen_assert)"

text \<open>Lines 343--357, the body of the loop over \<open>dim\<close> for one edge.\<close>

definition ineq_edge_dim ::
  "nat \<Rightarrow> real \<Rightarrow> real list \<Rightarrow> VectorXd \<Rightarrow> VectorXd \<Rightarrow> VectorXd \<Rightarrow> VectorXd \<Rightarrow> nat
     \<Rightarrow> ineq_state \<Rightarrow> exn \<times> ineq_state + ineq_state" where
  "ineq_edge_dim k h t Ekx Fkx Eky Fky dm st =
    (let g = 9.81;
         z_acc = 0;
         Ek = (if dm = X then Ekx else Eky);
         Fk = (if dm = X then Fkx else Fky)
     in do_all
         [stmt (on_ipopt (\<lambda>c. set_coeff (var_index k dm A) c (t ! 5 - h / (g + z_acc) * 20 * t ! 3))),
          stmt (on_ipopt (\<lambda>c. set_coeff (var_index k dm B) c (t ! 4 - h / (g + z_acc) * 12 * t ! 2))),
          stmt (on_ipopt (\<lambda>c. set_coeff (var_index k dm C) c (t ! 3 - h / (g + z_acc) * 6 * t ! 1))),
          stmt (on_ipopt (\<lambda>c. set_coeff (var_index k dm D) c (t ! 2 - h / (g + z_acc) * 2))),
          stmt (on_ipopt (\<lambda>c. add_col c (scale (t ! 1) Ek))),
          stmt (on_ipopt (\<lambda>c. add_col c (scale (t ! 0) Fk)))] st)"

text \<open>Lines 359--369: the edge's coefficients are applied to the column, and the
  constant entry is written.\<close>

definition ineq_edge_row ::
  "ZmpSpline list \<Rightarrow> TrLine \<Rightarrow> real list \<Rightarrow> real \<Rightarrow> real \<Rightarrow> real \<Rightarrow> real
     \<Rightarrow> ineq_state \<Rightarrow> exn \<times> ineq_state + ineq_state" where
  "ineq_edge_row splines l t non_dependent_ex non_dependent_fx non_dependent_ey non_dependent_fy st =
     do_all
       [stmt (\<lambda>st.
          bindE (GetXyDimAlternatingVector splines (p (coeff l)) (q (coeff l)))
           (\<lambda>line_coefficients_xy.
          bindE (get_col (l_c st) (l_ineq_ipopt st))
           (\<lambda>col.
          bindE (cwiseProduct col line_coefficients_xy)
           (\<lambda>prod. on_ineq (\<lambda>c. inM (set_col c prod)) st)))),
        stmt (on_vx (\<lambda>c. set_elem c (non_dependent_ex * t ! 0 + non_dependent_fx))),
        stmt (on_vy (\<lambda>c. set_elem c (non_dependent_ey * t ! 0 + non_dependent_fy))),
        stmt (\<lambda>st. bindE (get_elem (l_c st) (l_ineq_ipopt_vx st))
                (\<lambda>vx. on_ineq (\<lambda>c. inV (add_elem c (p (coeff l) * vx))) st)),
        stmt (\<lambda>st. bindE (get_elem (l_c st) (l_ineq_ipopt_vy st))
                (\<lambda>vy. on_ineq (\<lambda>c. inV (add_elem c (q (coeff l) * vy))) st)),
        stmt (on_ineq (\<lambda>c. inV (add_elem c (r (coeff l) - s_margin l)))),
        (\<lambda>st. Inr (st\<lparr>l_c := l_c st + 1\<rparr>))] st"

text \<open>Lines 333--370, the body of the loop over the three edges at one sample:
  \<open>line_for_constraint.at(c)\<close> throws outside the list.\<close>

definition ineq_edge ::
  "ZmpSpline list \<Rightarrow> TrLine list \<Rightarrow> nat \<Rightarrow> real \<Rightarrow> real list
     \<Rightarrow> VectorXd \<times> real \<Rightarrow> VectorXd \<times> real \<Rightarrow> VectorXd \<times> real \<Rightarrow> VectorXd \<times> real
     \<Rightarrow> nat \<Rightarrow> ineq_state \<Rightarrow> exn \<times> ineq_state + ineq_state" where
  "ineq_edge splines line_for_constraint k h t e_x f_x e_y f_y j st =
    (case (e_x, f_x, e_y, f_y) of
      ((Ekx, non_dependent_ex), (Fkx, non_dependent_fx),
       (Eky, non_dependent_ey), (Fky, non_dependent_fy)) \<Rightarrow>
      if l_c st < length line_for_constraint
      then
       (let l = line_for_constraint ! l_c st
        in bindE (foldE (ineq_edge_dim k h t Ekx Fkx Eky Fky) [X..<Suc Y] st)
            (ineq_edge_row splines l t non_dependent_ex non_dependent_fx
               non_dependent_ey non_dependent_fy))
      else Inl (out_of_range, st))"

text \<open>Lines 328--371, the body of the loop over the samples, at the sample \<open>i\<close>.\<close>

definition ineq_sample ::
  "ZmpSpline list \<Rightarrow> TrLine list \<Rightarrow> nat \<Rightarrow> real \<Rightarrow> real
     \<Rightarrow> VectorXd \<times> real \<Rightarrow> VectorXd \<times> real \<Rightarrow> VectorXd \<times> real \<Rightarrow> VectorXd \<times> real
     \<Rightarrow> nat \<Rightarrow> ineq_state \<Rightarrow> exn \<times> ineq_state + ineq_state" where
  "ineq_sample splines line_for_constraint k h dt e_x f_x e_y f_y i st =
     (let time = real i * dt;
          t = cache_exponents 6 time
      in foldE (ineq_edge splines line_for_constraint k h t e_x f_x e_y f_y) [0..<3] st)"

text \<open>Line 326, \<open>for (double i=0; i < std::floor(s.duration_/dt); ++i)\<close>: the counter runs
  over \<open>0, 1, 2, \<dots>\<close> while it is below the bound, which is a \<open>double\<close> and may be infinite.
  Every sample reads \<open>line_for_constraint.at(c)\<close> and advances \<open>c\<close>, so the loop ends: at the
  bound, or with the exception of \<open>at\<close> when the list is used up.  The counter never exceeds
  the number of edges, so it is an integer that a \<open>double\<close> holds exactly.\<close>

function sample_loop ::
  "ZmpSpline list \<Rightarrow> TrLine list \<Rightarrow> nat \<Rightarrow> real \<Rightarrow> real
     \<Rightarrow> VectorXd \<times> real \<Rightarrow> VectorXd \<times> real \<Rightarrow> VectorXd \<times> real \<Rightarrow> VectorXd \<times> real
     \<Rightarrow> double \<Rightarrow> nat \<Rightarrow> ineq_state \<Rightarrow> exn \<times> ineq_state + ineq_state" where
  "sample_loop splines line_for_constraint k h dt e_x f_x e_y f_y bound i st =
     (if less_double (real i) bound
      then (case ineq_sample splines line_for_constraint k h dt e_x f_x e_y f_y i st of
              Inl e \<Rightarrow> Inl e
            | Inr st' \<Rightarrow>
                sample_loop splines line_for_constraint k h dt e_x f_x e_y f_y bound (Suc i) st')
      else Inr st)"
  by pat_completeness auto

text \<open>Lines 306--372, the body of the loop over the splines.\<close>

definition ineq_spline ::
  "ZmpSpline list \<Rightarrow> Vector2d \<Rightarrow> Vector2d \<Rightarrow> TrLine list \<Rightarrow> real \<Rightarrow> real \<Rightarrow> nat
     \<Rightarrow> ZmpSpline \<Rightarrow> ineq_state \<Rightarrow> exn \<times> ineq_state + ineq_state" where
  "ineq_spline splines start_cog_p start_cog_v line_for_constraint h dt n_coeff s st =
    (if four_leg_supp s then Inr st
     else
      (let k = spline_id s
       in throwing (DescribeEByPrev splines k X (at2 start_cog_v X) n_coeff) st (\<lambda>e_x.
          throwing (DescribeFByPrev splines k X (at2 start_cog_v X) (at2 start_cog_p X) n_coeff) st (\<lambda>f_x.
          throwing (DescribeEByPrev splines k Y (at2 start_cog_v Y) n_coeff) st (\<lambda>e_y.
          throwing (DescribeFByPrev splines k Y (at2 start_cog_v Y) (at2 start_cog_p Y) n_coeff) st (\<lambda>f_y.
          sample_loop splines line_for_constraint k h dt e_x f_x e_y f_y
            (double_floor (double_div (duration s) dt)) 0 st))))))"

text \<open>\<open>CreateInequalityContraints\<close>, lines 287--378.  The result holds the returned
  \<open>ineq\<close> and the three members as the function leaves them.\<close>

definition CreateInequalityContraints ::
  "ZmpSpline list \<Rightarrow> Vector2d \<Rightarrow> Vector2d \<Rightarrow> TrLine list \<Rightarrow> real \<Rightarrow> real
     \<Rightarrow> exn \<times> ineq_state + ineq_state" where
  "CreateInequalityContraints splines start_cog_p start_cog_v line_for_constraint h dt =
    (let n_coeff = GetOptCoeffCount splines;
         ineq = MatVec_new n_coeff (length line_for_constraint)
     in foldE (ineq_spline splines start_cog_p start_cog_v line_for_constraint h dt n_coeff) splines
          \<lparr>l_ineq = ineq, l_ineq_ipopt = M ineq, l_ineq_ipopt_vx = v ineq,
           l_ineq_ipopt_vy = v ineq, l_c = 0\<rparr>)"

section \<open>The optimizer\<close>

text \<open>Modelled from the spec: the legs, the footholds and \<open>hyq::LegIDArray\<close> are declared in
  headers that are not part of the sources.  A foothold is a position and a leg identity,
  and a stance holds one foothold per leg ("number of legs": four).\<close>

datatype LegID = LF | RF | LH | RH

definition LegIDArray :: "LegID list" where
  "LegIDArray = [LF, RF, LH, RH]"

type_synonym Vector3d = "real \<times> real \<times> real"

record Foothold =
  foot_p :: Vector3d
  leg :: LegID

text \<open>\<open>p.segment<kDim2d>(X)\<close>, the horizontal part of a foothold position (the member \<open>p\<close> is
  \<open>foot_p\<close> here), and the sum of two positions.\<close>

definition segment_xy :: "Vector3d \<Rightarrow> Vector2d" where
  "segment_xy pos = (case pos of (x, y, z) \<Rightarrow> (x, y))"

definition add2 :: "Vector2d \<Rightarrow> Vector2d \<Rightarrow> Vector2d" where
  "add2 a b = (fst a + fst b, snd a + snd b)"

definition div2 :: "Vector2d \<Rightarrow> real \<Rightarrow> Vector2d" where
  "div2 a x = (fst a / x, snd a / x)"

text \<open>The members of \<open>ZmpOptimizer\<close> (the member \<open>cf_\<close> is \<open>m_cf\<close>, and so on).\<close>

record ZmpOptimizer =
  m_zmp_splines :: "ZmpSpline list"
  m_cf :: MatVec
  m_eq :: MatVec
  m_ineq :: MatVec
  m_footholds :: "Foothold list"
  m_lines_for_constraint :: "TrLine list"
  m_ineq_ipopt :: MatrixXd
  m_ineq_ipopt_vx :: VectorXd
  m_ineq_ipopt_vy :: VectorXd

definition store_ipopt :: "ineq_state \<Rightarrow> ZmpOptimizer \<Rightarrow> ZmpOptimizer" where
  "store_ipopt l st = st\<lparr>m_ineq_ipopt := l_ineq_ipopt l, m_ineq_ipopt_vx := l_ineq_ipopt_vx l,
                         m_ineq_ipopt_vy := l_ineq_ipopt_vy l\<rparr>"

text \<open>\<open>SetupQpMatrices\<close>, lines 44--73.  \<open>SuppTriangle::FromFootholds\<close> and \<open>CalcLines\<close>
  belong to the geometry provider and are parameters; \<open>FromFootholds\<close> returns the
  triangles and the final stance it writes.  An exception carries the optimizer as the
  throwing call leaves it.\<close>

definition SetupQpMatrices ::
  "((LegID \<Rightarrow> Foothold) \<Rightarrow> Foothold list \<Rightarrow> 'margins \<Rightarrow> 'tri list \<times> (LegID \<Rightarrow> Foothold))
     \<Rightarrow> ('tri \<Rightarrow> TrLine \<times> TrLine \<times> TrLine)
     \<Rightarrow> Vector2d \<Rightarrow> Vector2d \<Rightarrow> (LegID \<Rightarrow> Foothold) \<Rightarrow> Foothold list \<Rightarrow> Vector2d \<Rightarrow> 'margins
     \<Rightarrow> real \<Rightarrow> ZmpOptimizer \<Rightarrow> exn \<times> ZmpOptimizer + ZmpOptimizer" where
  "SetupQpMatrices FromFootholds CalcLines start_cog_p start_cog_v start_stance steps weight
       margins height_robot st =
    (if m_zmp_splines st = [] then Inl (runtime_error, st)
     else
      throwing (CreateMinAccCostFunction (m_zmp_splines st) weight) st (\<lambda>cf.
      (let st = st\<lparr>m_cf := cf\<rparr>;
           st = st\<lparr>m_footholds := steps\<rparr>
       in case FromFootholds start_stance steps margins of (tr, final_stance) \<Rightarrow>
        (let end_cog = fold (\<lambda>leg end_cog. add2 end_cog (segment_xy (foot_p (final_stance leg))))
                         LegIDArray (0, 0);
             end_cog = div2 end_cog 4
         in throwing (CreateEqualityContraints (m_zmp_splines st) start_cog_p start_cog_v end_cog) st
             (\<lambda>eq.
          (let st = st\<lparr>m_eq := eq\<rparr>;
               dt = double_literal 0.1
           in throwing (LineForConstraint CalcLines (m_zmp_splines st) tr dt) st
               (\<lambda>lines.
            (let st = st\<lparr>m_lines_for_constraint := lines\<rparr>
             in case CreateInequalityContraints (m_zmp_splines st) start_cog_p start_cog_v
                       (m_lines_for_constraint st) height_robot dt of
                  Inl (e, l) \<Rightarrow> Inl (e, store_ipopt l st)
                | Inr l \<Rightarrow> Inr ((store_ipopt l st)\<lparr>m_ineq := l_ineq l\<rparr>)))))))))"

text \<open>The cost a solver returns is a \<open>double\<close>, which may be infinite or not a number.\<close>

fun double_less :: "double \<Rightarrow> real \<Rightarrow> bool" where
  "double_less (Finite x) y = (x < y)"
| "double_less MinusInfinity y = True"
| "double_less PlusInfinity y = False"
| "double_less NaN y = False"

text \<open>\<open>SolveQp\<close>, lines 76--96.  \<open>Eigen::solve_quadprog\<close> is the solver collaborator, a
  parameter that returns the cost and the coefficient vector it fills.\<close>

definition SolveQp ::
  "(MatVec \<Rightarrow> MatVec \<Rightarrow> MatVec \<Rightarrow> nat \<Rightarrow> double \<times> VectorXd) \<Rightarrow> ZmpOptimizer \<Rightarrow> exn + VectorXd" where
  "SolveQp solve_quadprog st =
    (case solve_quadprog (m_cf st) (m_eq st) (m_ineq st) (GetOptCoeffCount (m_zmp_splines st)) of
       (cost, opt_spline_coeff_xy) \<Rightarrow>
         if cost = PlusInfinity \<or> double_less cost 0.002 then Inl length_error
         else Inr opt_spline_coeff_xy)"

text \<open>\<open>SolveIpopt\<close>, lines 99--130.  The Ipopt application and the NLP object are
  collaborators: the status of \<open>app.Initialize()\<close>, \<open>SetupNlp\<close> and \<open>app.OptimizeTNLP\<close> are
  parameters.  The result pairs the outcome with the output parameter
  \<open>final_footholds\<close> as the call leaves it.\<close>

datatype ApplicationReturnStatus =
  Solve_Succeeded | Solved_To_Acceptable_Level | Infeasible_Problem_Detected
  | Maximum_Iterations_Exceeded | Restoration_Failed | Invalid_Option | Internal_Error

record NlpIpoptZmp =
  x_final_footholds :: VectorXd
  x_final_spline_coeff :: VectorXd

definition SolveIpopt ::
  "ApplicationReturnStatus
     \<Rightarrow> (ZmpOptimizer \<Rightarrow> VectorXd \<Rightarrow> NlpIpoptZmp)
     \<Rightarrow> (NlpIpoptZmp \<Rightarrow> ApplicationReturnStatus \<times> NlpIpoptZmp)
     \<Rightarrow> ZmpOptimizer \<Rightarrow> VectorXd \<Rightarrow> VectorXd \<Rightarrow> (exn + VectorXd) \<times> VectorXd" where
  "SolveIpopt Initialize SetupNlp OptimizeTNLP st final_footholds opt_coefficients_eig =
    (let status = Initialize
     in if status \<noteq> Solve_Succeeded then (Inl length_error, final_footholds)
        else
         (let nlp_ipopt_zmp = SetupNlp st opt_coefficients_eig
          in case OptimizeTNLP nlp_ipopt_zmp of (status, nlp_ipopt_zmp) \<Rightarrow>
               (Inr (x_final_spline_coeff nlp_ipopt_zmp), x_final_footholds nlp_ipopt_zmp)))"

section \<open>Notions used to state the properties\<close>

text \<open>A spline sequence carries its ids in order: the id of a segment is its position
  ("identity \<open>id\<close> (sequence position)"), as the equality builder assumes when it mixes the
  loop index with \<open>back().id_\<close>.\<close>

definition wf_splines :: "ZmpSpline list \<Rightarrow> bool" where
  "wf_splines splines = (map spline_id splines = [0..<length splines])"

text \<open>The quintic of a segment on one axis and its second derivative, the acceleration.\<close>

definition quintic_pos :: "real \<Rightarrow> real \<Rightarrow> real \<Rightarrow> real \<Rightarrow> real \<Rightarrow> real \<Rightarrow> real \<Rightarrow> real" where
  "quintic_pos a b c d e f t = a * t ^ 5 + b * t ^ 4 + c * t ^ 3 + d * t ^ 2 + e * t + f"

definition quintic_vel :: "real \<Rightarrow> real \<Rightarrow> real \<Rightarrow> real \<Rightarrow> real \<Rightarrow> real \<Rightarrow> real" where
  "quintic_vel a b c d e t = 5 * a * t ^ 4 + 4 * b * t ^ 3 + 3 * c * t ^ 2 + 2 * d * t + e"

definition quintic_acc :: "real \<Rightarrow> real \<Rightarrow> real \<Rightarrow> real \<Rightarrow> real \<Rightarrow> real" where
  "quintic_acc a b c d t = 20 * a * t ^ 3 + 12 * b * t ^ 2 + 6 * c * t + 2 * d"

text \<open>The quadratic form \<open>x\<^sup>T M x\<close> of an \<open>n \<times> n\<close> matrix.\<close>

definition quad_form :: "nat \<Rightarrow> (nat \<Rightarrow> nat \<Rightarrow> real) \<Rightarrow> (nat \<Rightarrow> real) \<Rightarrow> real" where
  "quad_form n Mx x = (\<Sum>i<n. \<Sum>j<n. x i * Mx i j * x j)"

text \<open>The primitive of the squared acceleration that vanishes at \<open>0\<close>.\<close>

definition sq_acc_primitive :: "real \<Rightarrow> real \<Rightarrow> real \<Rightarrow> real \<Rightarrow> real \<Rightarrow> real" where
  "sq_acc_primitive a b c d t =
     400 / 7 * a\<^sup>2 * t ^ 7 + 80 * a * b * t ^ 6 + (48 * a * c + 144 / 5 * b\<^sup>2) * t ^ 5
     + (20 * a * d + 36 * b * c) * t ^ 4 + (16 * b * d + 12 * c\<^sup>2) * t ^ 3
     + 12 * c * d * t\<^sup>2 + 4 * d\<^sup>2 * t"

text \<open>The cost matrix in closed form, after the first \<open>m\<close> (segment, axis) blocks have been
  written: the entry of the letters \<open>e1\<close> and \<open>e2\<close> of a block is the integral over the
  duration of the product of the two acceleration monomials.\<close>

definition acc_coeff :: "nat \<Rightarrow> real" where
  "acc_coeff e = (if e = 0 then 20 else if e = 1 then 12 else if e = 2 then 6 else 2)"

definition cost_block :: "real \<Rightarrow> real \<Rightarrow> nat \<Rightarrow> nat \<Rightarrow> real" where
  "cost_block T w e1 e2 = acc_coeff e1 * acc_coeff e2 * T ^ (7 - e1 - e2) / real (7 - e1 - e2) * w"

definition cost_closed :: "ZmpSpline list \<Rightarrow> Vector2d \<Rightarrow> nat \<Rightarrow> nat \<Rightarrow> nat \<Rightarrow> real" where
  "cost_closed ss w m i j =
     (if i div 4 = j div 4 \<and> i div 4 < m
      then cost_block (duration (ss ! (i div 8))) (at2 w ((i div 4) mod 2)) (i mod 4) (j mod 4)
      else 0)"

definition with_coeffs :: "(nat \<Rightarrow> nat \<Rightarrow> real) \<Rightarrow> MatVec \<Rightarrow> MatVec" where
  "with_coeffs f mv = mv\<lparr>M := (M mv)\<lparr>coeffs := f\<rparr>\<rparr>"

text \<open>Total correctness of a statement that may throw: from a state that satisfies \<open>P\<close> it
  returns, and the state it returns satisfies \<open>Q\<close>.\<close>

definition steps_to :: "('s \<Rightarrow> bool) \<Rightarrow> ('s \<Rightarrow> 'e + 's) \<Rightarrow> ('s \<Rightarrow> bool) \<Rightarrow> bool" where
  "steps_to P c Q = (\<forall>s. P s \<longrightarrow> (\<exists>s'. c s = Inr s' \<and> Q s'))"

text \<open>A \<open>MatVec\<close> of \<open>R\<close> coefficients and \<open>Cn\<close> constraints, and the state of the equality
  builder when its counter stands at \<open>k\<close>.\<close>

definition dims_ok :: "nat \<Rightarrow> nat \<Rightarrow> MatVec \<Rightarrow> bool" where
  "dims_ok R Cn mv = (rows (M mv) = R \<and> cols (M mv) = Cn \<and> vsize (v mv) = Cn)"

definition eq_at :: "nat \<Rightarrow> nat \<Rightarrow> nat \<Rightarrow> MatVec \<times> nat \<Rightarrow> bool" where
  "eq_at R Cn k = (\<lambda>(ec, i). dims_ok R Cn ec \<and> i = k)"

text \<open>\<open>floor(duration / dt)\<close>, the quotient being the one the machine computes; a real that
  is a \<open>double\<close>; the number of samples of a segment; and the state of the inequality
  builder when its counter stands at \<open>k\<close>.\<close>

definition floor_quotient :: "real \<Rightarrow> real \<Rightarrow> int" where
  "floor_quotient a b = (case double_floor (double_div a b) of Finite n \<Rightarrow> \<lfloor>n\<rfloor> | _ \<Rightarrow> 0)"

definition is_double :: "real \<Rightarrow> bool" where
  "is_double x = (double_round x = Finite x)"

text \<open>The floor of the quotient is finite, and it fits an \<open>int\<close>.\<close>

definition finite_quotient :: "real \<Rightarrow> real \<Rightarrow> bool" where
  "finite_quotient a b =
     (double_floor (double_div a b) = Finite (of_int (floor_quotient a b)))"

definition int_quotient :: "real \<Rightarrow> real \<Rightarrow> bool" where
  "int_quotient a b =
     (double_to_int (double_floor (double_div a b)) = Some (floor_quotient a b))"

definition n_samples :: "real \<Rightarrow> ZmpSpline \<Rightarrow> nat" where
  "n_samples dt s = (if four_leg_supp s then 0 else nat (floor_quotient (duration s) dt))"

definition ineq_at :: "nat \<Rightarrow> nat \<Rightarrow> nat \<Rightarrow> ineq_state \<Rightarrow> bool" where
  "ineq_at R Cn k st =
     (dims_ok R Cn (l_ineq st) \<and> rows (l_ineq_ipopt st) = R \<and> cols (l_ineq_ipopt st) = Cn \<and>
      vsize (l_ineq_ipopt_vx st) = Cn \<and> vsize (l_ineq_ipopt_vy st) = Cn \<and> l_c st = k)"

text \<open>The state a call leaves behind, whether it returns or throws.\<close>

definition state_after :: "exn \<times> 's + 's \<Rightarrow> 's" where
  "state_after res = (case res of Inl (e, st) \<Rightarrow> st | Inr st \<Rightarrow> st)"

text \<open>"The solver's returned cost is infinite or below the small positive sanity threshold
  (0.002)"; a cost that is not a number is neither.\<close>

definition infinite_or_below_threshold :: "double \<Rightarrow> bool" where
  "infinite_or_below_threshold cost =
     (case cost of Finite x \<Rightarrow> x < 0.002 | PlusInfinity \<Rightarrow> True | MinusInfinity \<Rightarrow> True
      | NaN \<Rightarrow> False)"

text \<open>An optimizer whose members are empty, and collaborators that do nothing, for the
  examples below.\<close>

definition blank_optimizer :: "ZmpSpline list \<Rightarrow> ZmpOptimizer" where
  "blank_optimizer splines =
     \<lparr>m_zmp_splines = splines, m_cf = MatVec_new 0 0, m_eq = MatVec_new 0 0,
      m_ineq = MatVec_new 0 0, m_footholds = [], m_lines_for_constraint = [],
      m_ineq_ipopt = MatrixXd_Zero 0 0, m_ineq_ipopt_vx = VectorXd_Zero 0,
      m_ineq_ipopt_vy = VectorXd_Zero 0\<rparr>"

definition stance_at :: "real \<Rightarrow> real \<Rightarrow> LegID \<Rightarrow> Foothold" where
  "stance_at x y l =
     (case l of LF \<Rightarrow> \<lparr>foot_p = (x + 1, y + 1, 0), leg = LF\<rparr>
      | RF \<Rightarrow> \<lparr>foot_p = (x + 1, y - 1, 0), leg = RF\<rparr>
      | LH \<Rightarrow> \<lparr>foot_p = (x - 1, y + 1, 0), leg = LH\<rparr>
      | RH \<Rightarrow> \<lparr>foot_p = (x - 1, y - 1, 0), leg = RH\<rparr>)"

definition edge_x :: TrLine where
  "edge_x = \<lparr>coeff = \<lparr>p = 1, q = 0, r = 0\<rparr>, s_margin = 0\<rparr>"

definition one_triangle ::
  "(LegID \<Rightarrow> Foothold) \<Rightarrow> Foothold list \<Rightarrow> unit \<Rightarrow> TrLine list \<times> (LegID \<Rightarrow> Foothold)" where
  "one_triangle start_stance steps margins = ([edge_x], stance_at 3 5)"

definition same_edges :: "TrLine \<Rightarrow> TrLine \<times> TrLine \<times> TrLine" where
  "same_edges l = (l, l, l)"

text \<open>The ZMP on one axis at time \<open>t\<close> of segment \<open>k\<close>, as an affine expression over the free
  coefficients: \<open>position(t) - (h / (g + z_acc)) \<cdot> acceleration(t)\<close> with \<open>z_acc = 0\<close>, where
  the position is \<open>A t\<^sup>5 + B t\<^sup>4 + C t\<^sup>3 + D t\<^sup>2 + E t + F\<close> and \<open>E\<close> and \<open>F\<close> are the propagated
  affine terms.  \<open>zmp_own\<close> is the part over the segment's own \<open>A, B, C, D\<close>, \<open>zmp_lin\<close> the
  whole linear part, \<open>zmp_const\<close> the constant part.\<close>

definition zmp_own :: "real \<Rightarrow> real \<Rightarrow> nat \<Rightarrow> nat \<Rightarrow> real \<Rightarrow> nat \<Rightarrow> real" where
  "zmp_own g h k dm t i =
     (let z_acc = 0
      in if i = var_index k dm A then t ^ 5 - h / (g + z_acc) * (20 * t ^ 3)
         else if i = var_index k dm B then t ^ 4 - h / (g + z_acc) * (12 * t ^ 2)
         else if i = var_index k dm C then t ^ 3 - h / (g + z_acc) * (6 * t)
         else if i = var_index k dm D then t ^ 2 - h / (g + z_acc) * 2
         else 0)"

definition zmp_lin ::
  "real \<Rightarrow> real \<Rightarrow> ZmpSpline list \<Rightarrow> Vector2d \<Rightarrow> Vector2d \<Rightarrow> nat \<Rightarrow> nat \<Rightarrow> real \<Rightarrow> nat \<Rightarrow> real" where
  "zmp_lin g h splines start_p start_v k dm t i =
     zmp_own g h k dm t i
       + t * fst (E_by_prev splines k dm (at2 start_v dm)) i
       + fst (F_by_prev splines k dm (at2 start_v dm) (at2 start_p dm)) i"

definition zmp_const :: "ZmpSpline list \<Rightarrow> Vector2d \<Rightarrow> Vector2d \<Rightarrow> nat \<Rightarrow> nat \<Rightarrow> real \<Rightarrow> real" where
  "zmp_const splines start_p start_v k dm t =
     t * snd (E_by_prev splines k dm (at2 start_v dm))
       + snd (F_by_prev splines k dm (at2 start_v dm) (at2 start_p dm))"

text \<open>The value of that ZMP at the coefficient vector \<open>x\<close> of \<open>n\<close> entries.\<close>

definition dot :: "nat \<Rightarrow> (nat \<Rightarrow> real) \<Rightarrow> (nat \<Rightarrow> real) \<Rightarrow> real" where
  "dot n a x = (\<Sum>i<n. a i * x i)"

definition zmp_value ::
  "real \<Rightarrow> real \<Rightarrow> ZmpSpline list \<Rightarrow> Vector2d \<Rightarrow> Vector2d \<Rightarrow> nat \<Rightarrow> nat \<Rightarrow> real
     \<Rightarrow> (nat \<Rightarrow> real) \<Rightarrow> real" where
  "zmp_value g h splines start_p start_v k dm t x =
     (let n = GetOptCoeffCount splines;
          z_acc = 0;
          e = dot n (fst (E_by_prev splines k dm (at2 start_v dm))) x
                + snd (E_by_prev splines k dm (at2 start_v dm));
          f = dot n (fst (F_by_prev splines k dm (at2 start_v dm) (at2 start_p dm))) x
                + snd (F_by_prev splines k dm (at2 start_v dm) (at2 start_p dm))
      in quintic_pos (x (var_index k dm A)) (x (var_index k dm B)) (x (var_index k dm C))
           (x (var_index k dm D)) e f t
         - h / (g + z_acc)
           * quintic_acc (x (var_index k dm A)) (x (var_index k dm B)) (x (var_index k dm C))
               (x (var_index k dm D)) t)"

text \<open>The constant the builder writes for one axis (line 363: \<open>non_dependent_e * t[0] +
  non_dependent_f\<close>, with \<open>t[0] = 1\<close>), and the row it builds for an edge: the linear part
  and the constant entry.\<close>

definition built_const :: "ZmpSpline list \<Rightarrow> Vector2d \<Rightarrow> Vector2d \<Rightarrow> nat \<Rightarrow> nat \<Rightarrow> real" where
  "built_const splines start_p start_v k dm =
     snd (E_by_prev splines k dm (at2 start_v dm))
       + snd (F_by_prev splines k dm (at2 start_v dm) (at2 start_p dm))"

definition built_row ::
  "real \<Rightarrow> real \<Rightarrow> ZmpSpline list \<Rightarrow> Vector2d \<Rightarrow> Vector2d \<Rightarrow> nat \<Rightarrow> real \<Rightarrow> TrLine
     \<Rightarrow> (nat \<Rightarrow> real) \<times> real" where
  "built_row g h splines start_p start_v k t l =
     (\<lambda>i. p (coeff l) * zmp_lin g h splines start_p start_v k X t i
          + q (coeff l) * zmp_lin g h splines start_p start_v k Y t i,
      p (coeff l) * built_const splines start_p start_v k X
        + q (coeff l) * built_const splines start_p start_v k Y
        + (r (coeff l) - s_margin l))"

text \<open>The rows in the order the loops build them: three edges per sample, the samples of
  a segment, the segments not in full support.  The edge of a row is the entry of the edge
  list at the row's index.\<close>

definition edge_rows ::
  "real \<Rightarrow> real \<Rightarrow> ZmpSpline list \<Rightarrow> Vector2d \<Rightarrow> Vector2d \<Rightarrow> TrLine list \<Rightarrow> nat \<Rightarrow> real
     \<Rightarrow> ((nat \<Rightarrow> real) \<times> real) list \<Rightarrow> ((nat \<Rightarrow> real) \<times> real) list" where
  "edge_rows g h splines start_p start_v lines k t built =
     fold (\<lambda>j acc. acc @ [built_row g h splines start_p start_v k t (lines ! length acc)])
       [0..<3] built"

definition sample_rows ::
  "real \<Rightarrow> real \<Rightarrow> ZmpSpline list \<Rightarrow> Vector2d \<Rightarrow> Vector2d \<Rightarrow> TrLine list \<Rightarrow> real \<Rightarrow> nat \<Rightarrow> nat
     \<Rightarrow> ((nat \<Rightarrow> real) \<times> real) list \<Rightarrow> ((nat \<Rightarrow> real) \<times> real) list" where
  "sample_rows g h splines start_p start_v lines dt k N built =
     fold (\<lambda>i. edge_rows g h splines start_p start_v lines k (real i * dt)) [0..<N] built"

definition spline_rows ::
  "real \<Rightarrow> real \<Rightarrow> ZmpSpline list \<Rightarrow> Vector2d \<Rightarrow> Vector2d \<Rightarrow> TrLine list \<Rightarrow> real \<Rightarrow> ZmpSpline
     \<Rightarrow> ((nat \<Rightarrow> real) \<times> real) list \<Rightarrow> ((nat \<Rightarrow> real) \<times> real) list" where
  "spline_rows g h splines start_p start_v lines dt s built =
     (if four_leg_supp s then built
      else sample_rows g h splines start_p start_v lines dt (spline_id s)
             (nat (floor_quotient (duration s) dt)) built)"

definition all_rows ::
  "real \<Rightarrow> real \<Rightarrow> ZmpSpline list \<Rightarrow> Vector2d \<Rightarrow> Vector2d \<Rightarrow> TrLine list \<Rightarrow> real
     \<Rightarrow> ((nat \<Rightarrow> real) \<times> real) list" where
  "all_rows g h splines start_p start_v lines dt =
     fold (spline_rows g h splines start_p start_v lines dt) splines []"

text \<open>Devices of the proofs: a matrix with column \<open>k\<close> replaced, the column after the
  statements of one axis, the vector \<open>GetXyDimAlternatingVector\<close> returns, and the state of
  the inequality builder once the rows \<open>built\<close> are written.\<close>

definition with_col :: "nat \<Rightarrow> nat \<Rightarrow> (nat \<Rightarrow> real) \<Rightarrow> MatrixXd \<Rightarrow> MatrixXd" where
  "with_col R k f m = m\<lparr>coeffs := \<lambda>i c. if c = k \<and> i < R then f i else coeffs m i c\<rparr>"

definition dim_col ::
  "nat \<Rightarrow> real \<Rightarrow> real list \<Rightarrow> VectorXd \<Rightarrow> VectorXd \<Rightarrow> nat \<Rightarrow> (nat \<Rightarrow> real) \<Rightarrow> nat \<Rightarrow> real" where
  "dim_col ki h t Ek Fk dm f =
     (\<lambda>i. (f(var_index ki dm A := t ! 5 - h / (9.81 + 0) * 20 * t ! 3,
              var_index ki dm B := t ! 4 - h / (9.81 + 0) * 12 * t ! 2,
              var_index ki dm C := t ! 3 - h / (9.81 + 0) * 6 * t ! 1,
              var_index ki dm D := t ! 2 - h / (9.81 + 0) * 2)) i
          + t ! 1 * elems Ek i + t ! 0 * elems Fk i)"

definition xy_alternating :: "nat \<Rightarrow> real \<Rightarrow> real \<Rightarrow> nat \<Rightarrow> real" where
  "xy_alternating n x y i = (if i < n then (if i div 4 mod 2 = 0 then x else y) else 0)"

definition ineq_built :: "nat \<Rightarrow> nat \<Rightarrow> ((nat \<Rightarrow> real) \<times> real) list \<Rightarrow> ineq_state \<Rightarrow> bool" where
  "ineq_built R Cn built st =
     (ineq_at R Cn (length built) st \<and>
      (\<forall>c<length built. \<forall>i<R. coeffs (M (l_ineq st)) i c = fst (built ! c) i) \<and>
      (\<forall>c<length built. elems (v (l_ineq st)) c = snd (built ! c)) \<and>
      (\<forall>c\<ge>length built. \<forall>i. coeffs (l_ineq_ipopt st) i c = 0) \<and>
      (\<forall>c\<ge>length built. elems (v (l_ineq st)) c = 0))"

section \<open>Basic facts\<close>

lemma bindE_Inr [simp]: "bindE (Inr x) f = f x"
  by (simp add: bindE_def)

lemma bindE_Inl [simp]: "bindE (Inl e) f = Inl e"
  by (simp add: bindE_def)

lemma foldE_append: "foldE f (xs @ ys) s = bindE (foldE f xs s) (foldE f ys)"
  by (induction xs arbitrary: s) (auto simp: bindE_def split: sum.splits)

lemma foldE_snoc: "foldE f (xs @ [x]) s = bindE (foldE f xs s) (f x)"
  by (simp add: foldE_append bindE_def split: sum.splits)

lemma cache_exponents_nth: "e < N \<Longrightarrow> cache_exponents N t ! e = t ^ e"
  by (simp add: cache_exponents_def)

lemma MatVec_new_simps [simp]:
  "rows (M (MatVec_new nr nc)) = nr"
  "cols (M (MatVec_new nr nc)) = nc"
  "coeffs (M (MatVec_new nr nc)) = (\<lambda>_ _. 0)"
  "vsize (v (MatVec_new nr nc)) = nc"
  "elems (v (MatVec_new nr nc)) = (\<lambda>_. 0)"
  by (simp_all add: MatVec_new_def MatrixXd_Zero_def VectorXd_Zero_def)

lemma bindE_do_all_Nil [simp]: "bindE m (do_all []) = m"
  by (cases m) simp_all

lemma wf_splines_nth: "wf_splines ss \<Longrightarrow> k < length ss \<Longrightarrow> spline_id (ss ! k) = k"
  unfolding wf_splines_def
  by (metis add_0 length_map nth_map nth_upt)

lemma dims_XY: "[X..<Suc Y] = [0, Suc 0]"
  by (simp add: idx upt_rec)

lemma steps_to_do_all_Nil: "steps_to P (do_all []) P"
  by (simp add: steps_to_def)

lemma steps_to_do_all_Cons:
  "steps_to P c Q \<Longrightarrow> steps_to Q (do_all cs) R \<Longrightarrow> steps_to P (do_all (c # cs)) R"
  unfolding steps_to_def by fastforce

lemma steps_to_foldE_Nil: "steps_to P (foldE f []) P"
  by (simp add: steps_to_def)

lemma steps_to_foldE_Cons:
  "steps_to P (f x) Q \<Longrightarrow> steps_to Q (foldE f xs) R \<Longrightarrow> steps_to P (foldE f (x # xs)) R"
  unfolding steps_to_def by fastforce

lemma steps_toD: "steps_to P c Q \<Longrightarrow> P s \<Longrightarrow> \<exists>s'. c s = Inr s' \<and> Q s'"
  by (simp add: steps_to_def)

lemma vsize_scale [simp]: "vsize (scale t vec) = vsize vec"
  by (simp add: scale_def)

lemma steps_to_bindE:
  "steps_to P c Q \<Longrightarrow> steps_to Q f R \<Longrightarrow> steps_to P (\<lambda>s. bindE (c s) f) R"
  unfolding steps_to_def by fastforce

lemma steps_to_foldE_snoc:
  "steps_to P (foldE f xs) Q \<Longrightarrow> steps_to Q (f x) R \<Longrightarrow> steps_to P (foldE f (xs @ [x])) R"
  unfolding steps_to_def by (fastforce simp: foldE_snoc)

section \<open>Facts about the rounded quotient\<close>

text \<open>\<open>bit_length\<close> and \<open>ilog2\<close> are what their names say: \<open>2\<^sup>i\<^sup>l\<^sup>o\<^sup>g\<^sup>2\<^sup>(\<^sup>x\<^sup>) \<le> x < 2\<^sup>i\<^sup>l\<^sup>o\<^sup>g\<^sup>2\<^sup>(\<^sup>x\<^sup>)\<^sup>+\<^sup>1\<close>.
  Rounding keeps a number between the integers around it, and the quotient of a \<open>double\<close>
  by a larger \<open>double\<close> rounds to less than one.\<close>

lemma bit_length_pos: "0 < n \<Longrightarrow> 0 < bit_length n"
  by (subst bit_length.simps) simp

lemma bit_length_upper: "n < 2 ^ bit_length n"
proof (induction n rule: bit_length.induct)
  case (1 n)
  show ?case
  proof (cases "n = 0")
    case True
    then show ?thesis by simp
  next
    case False
    then have "n div 2 < 2 ^ bit_length (n div 2)" using 1 by simp
    then have "n < 2 * 2 ^ bit_length (n div 2)" by linarith
    then show ?thesis using False by (subst bit_length.simps) simp
  qed
qed

lemma bit_length_lower: "0 < n \<Longrightarrow> 2 ^ (bit_length n - 1) \<le> n"
proof (induction n rule: bit_length.induct)
  case (1 n)
  show ?case
  proof (cases "n div 2 = 0")
    case True
    then have "bit_length n = 1" using 1(2)
      by (subst bit_length.simps, subst bit_length.simps) simp
    then show ?thesis using 1(2) by simp
  next
    case False
    then have ih: "2 ^ (bit_length (n div 2) - 1) \<le> n div 2" using 1 by simp
    have p: "0 < bit_length (n div 2)" using False by (intro bit_length_pos) simp
    have "bit_length n = Suc (bit_length (n div 2))" using 1(2) by (subst bit_length.simps) simp
    then have "bit_length n - 1 = Suc (bit_length (n div 2) - 1)" using p by simp
    then have "(2::nat) ^ (bit_length n - 1) = 2 * 2 ^ (bit_length (n div 2) - 1)" by simp
    also have "\<dots> \<le> 2 * (n div 2)" using ih by simp
    also have "\<dots> \<le> n" by simp
    finally show ?thesis .
  qed
qed

lemma bit_length_le: "n < 2 ^ k \<Longrightarrow> bit_length n \<le> k"
proof (cases "n = 0")
  case True
  then show ?thesis by (subst bit_length.simps) simp
next
  case False
  assume "n < 2 ^ k"
  have "(2::nat) ^ (bit_length n - 1) \<le> n" using bit_length_lower[of n] False by simp
  then have "(2::nat) ^ (bit_length n - 1) < 2 ^ k" using \<open>n < 2 ^ k\<close> by (rule le_less_trans)
  then have "bit_length n - 1 < k" by (simp only: power_strict_increasing_iff one_less_numeral_iff semiring_norm)
  then show ?thesis by simp
qed

lemma pow2_pos [simp]: "0 < pow2 e"
  by (simp add: pow2_def)

lemma pow2_nonneg [simp]: "0 \<le> pow2 e"
  by (simp add: pow2_def)

lemma pow2_neg: "e \<le> 0 \<Longrightarrow> pow2 e = 1 / 2 ^ nat (- e)"
  by (cases "e = 0") (simp_all add: pow2_def)

lemma pow2_add: "pow2 (a + b) = pow2 a * pow2 b"
proof -
  have "pow2 e = 2 powr (real_of_int e)" for e
    by (simp add: pow2_def powr_realpow[symmetric] powr_minus divide_inverse)
  then show ?thesis by (simp add: powr_add)
qed

lemma pow2_mono: "a \<le> b \<Longrightarrow> pow2 a \<le> pow2 b"
proof -
  have "pow2 e = 2 powr (real_of_int e)" for e
    by (simp add: pow2_def powr_realpow[symmetric] powr_minus divide_inverse)
  then show "a \<le> b \<Longrightarrow> pow2 a \<le> pow2 b" by simp
qed

lemma ilog2_upper:
  assumes "0 < x"
  shows "x < pow2 (ilog2 x + 1)"
proof (cases "1 \<le> x")
  case True
  let ?n = "nat \<lfloor>x\<rfloor>"
  have n: "real ?n = of_int \<lfloor>x\<rfloor>" using True by simp
  have "x < real ?n + 1" using n by linarith
  also have "\<dots> \<le> 2 ^ bit_length ?n"
  proof -
    have "Suc ?n \<le> 2 ^ bit_length ?n" using bit_length_upper[of ?n] by (rule Suc_leI)
    then have "real (Suc ?n) \<le> real (2 ^ bit_length ?n)" by (rule of_nat_mono)
    then show ?thesis by (simp only: of_nat_Suc of_nat_power of_nat_numeral)
  qed
  finally show ?thesis using True by (simp add: ilog2_def pow2_def)
next
  case False
  let ?m = "nat (\<lceil>1 / x\<rceil> - 1)"
  have x1: "1 < 1 / x" using False assms by simp
  then have c: "2 \<le> \<lceil>1 / x\<rceil>" by linarith
  then have c0: "0 \<le> \<lceil>1 / x\<rceil> - 1" and c1: "0 < \<lceil>1 / x\<rceil> - 1" by linarith+
  have m: "0 < ?m" using c1 by (simp only: zero_less_nat_eq)
  have rm: "real ?m = of_int (\<lceil>1 / x\<rceil> - 1)" using c0 by (rule of_nat_nat)
  have "real_of_int (\<lceil>1 / x\<rceil> - 1) < 1 / x" by (simp only: of_int_diff of_int_1) linarith
  then have "real ?m < 1 / x" by (simp only: rm)
  moreover have "real (2 ^ (bit_length ?m - 1)) \<le> real ?m"
    using bit_length_lower[OF m] by (rule of_nat_mono)
  ultimately have "real (2 ^ (bit_length ?m - 1)) < 1 / x" by (rule le_less_trans[rotated])
  then have "2 ^ (bit_length ?m - 1) < 1 / x" by (simp only: of_nat_power of_nat_numeral)
  then have "x * 2 ^ (bit_length ?m - 1) < 1" using assms by (simp add: field_simps)
  moreover have "pow2 (1 - int (bit_length ?m)) = 1 / 2 ^ (bit_length ?m - 1)"
    using bit_length_pos[OF m] by (simp add: pow2_neg nat_diff_distrib')
  ultimately have "x < pow2 (1 - int (bit_length ?m))"
    by (simp only:) (simp add: field_simps)
  then show ?thesis using False by (simp add: ilog2_def)
qed

lemma ilog2_lower:
  assumes "0 < x"
  shows "pow2 (ilog2 x) \<le> x"
proof (cases "1 \<le> x")
  case True
  let ?n = "nat \<lfloor>x\<rfloor>"
  have n0: "0 < ?n" using True by simp
  have n: "real ?n = of_int \<lfloor>x\<rfloor>" using True by simp
  have "real (2 ^ (bit_length ?n - 1)) \<le> real ?n"
    using bit_length_lower[OF n0] by (rule of_nat_mono)
  then have "2 ^ (bit_length ?n - 1) \<le> real ?n" by (simp only: of_nat_power of_nat_numeral)
  also have "\<dots> \<le> x" using n by linarith
  finally have "2 ^ (bit_length ?n - 1) \<le> x" .
  moreover have "pow2 (int (bit_length ?n) - 1) = 2 ^ (bit_length ?n - 1)"
    using bit_length_pos[OF n0] by (simp add: pow2_def nat_diff_distrib')
  ultimately show ?thesis using True by (simp add: ilog2_def)
next
  case False
  let ?m = "nat (\<lceil>1 / x\<rceil> - 1)"
  have x1: "1 < 1 / x" using False assms by simp
  then have "2 \<le> \<lceil>1 / x\<rceil>" by linarith
  then have c0: "0 \<le> \<lceil>1 / x\<rceil> - 1" by linarith
  have rm: "real ?m = of_int (\<lceil>1 / x\<rceil> - 1)" using c0 by (rule of_nat_nat)
  have "1 / x \<le> real_of_int (\<lceil>1 / x\<rceil> - 1) + 1" by (simp only: of_int_diff of_int_1) linarith
  then have "1 / x \<le> real (Suc ?m)" by (simp only: rm of_nat_Suc)
  also have "\<dots> \<le> real (2 ^ bit_length ?m)"
    using bit_length_upper[of ?m] by (intro of_nat_mono Suc_leI)
  finally have "1 / x \<le> 2 ^ bit_length ?m" by (simp only: of_nat_power of_nat_numeral)
  then have "1 / 2 ^ bit_length ?m \<le> x" using assms by (simp add: field_simps)
  moreover have "pow2 (- int (bit_length ?m)) = 1 / 2 ^ bit_length ?m"
    by (simp add: pow2_neg)
  ultimately show ?thesis using False by (simp add: ilog2_def)
qed

lemma ilog2_le:
  assumes "x < 2 ^ k"
  shows "ilog2 x \<le> int k - 1 \<or> ilog2 x \<le> 0"
proof (cases "1 \<le> x")
  case True
  have "\<lfloor>x\<rfloor> < 2 ^ k" using assms by (simp add: floor_less_iff)
  then have "nat \<lfloor>x\<rfloor> < 2 ^ k" using True by (simp add: nat_less_iff)
  then have "bit_length (nat \<lfloor>x\<rfloor>) \<le> k" by (rule bit_length_le)
  then show ?thesis using True by (simp add: ilog2_def)
next
  case False
  then show ?thesis by (simp add: ilog2_def)
qed

lemma round_half_even_le: "x \<le> of_int K \<Longrightarrow> round_half_even x \<le> K"
  unfolding round_half_even_def Let_def by (auto; linarith)

lemma round_half_even_ge: "of_int K \<le> x \<Longrightarrow> K \<le> round_half_even x"
  unfolding round_half_even_def Let_def by (auto; linarith)

lemma round_half_even_int [simp]: "round_half_even (of_int K) = K"
  unfolding round_half_even_def Let_def by simp

lemma round_half_even_less: "x < of_int K - 1 / 2 \<Longrightarrow> round_half_even x < K"
  unfolding round_half_even_def Let_def by (auto; linarith)


lemma pow2_nat: "pow2 (int n) = 2 ^ n"
  by (simp add: pow2_def)

lemma pow2_split: "d \<le> e \<Longrightarrow> pow2 e = of_int (2 ^ nat (e - d)) * pow2 d"
  using pow2_add[of "e - d" d] by (simp add: pow2_def)

lemma double_round_bounded:
  assumes x0: "0 \<le> x" and xK: "x \<le> of_int K" and K: "K < 2 ^ 53"
  shows "\<exists>y. double_round x = Finite y \<and> 0 \<le> y \<and> y \<le> of_int K"
proof (cases "x = 0")
  case True
  then show ?thesis using xK by (simp add: double_round_def)
next
  case False
  then have xp: "0 < x" using x0 by simp
  define e where "e = max (- 1074) (ilog2 x - 52)"
  define N where "N = nat (- e)"
  define m where "m = round_half_even (x / pow2 e)"
  have "real_of_int K < 2 ^ 53" using K by (metis of_int_less_numeral_power_cancel_iff)
  then have "x < 2 ^ 53" using xK by linarith
  from ilog2_le[OF this] have e0: "e \<le> 0" by (auto simp: e_def)
  have pe: "pow2 e = 1 / 2 ^ N" using pow2_neg[OF e0] by (simp add: N_def)
  have z: "x / pow2 e = x * 2 ^ N" by (simp add: pe)
  have "x * 2 ^ N \<le> of_int (K * 2 ^ N)" using xK by simp
  then have mK: "m \<le> K * 2 ^ N" unfolding m_def z by (rule round_half_even_le)
  have "of_int 0 \<le> x * 2 ^ N" using x0 by simp
  then have m0: "0 \<le> m" unfolding m_def z by (rule round_half_even_ge)
  let ?y = "of_int m * pow2 e"
  have "real_of_int m \<le> of_int (K * 2 ^ N)" using mK by (simp only: of_int_le_iff)
  then have yK: "?y \<le> of_int K" by (simp add: pe field_simps)
  have y0: "0 \<le> ?y" using m0 by simp
  have "pow2 53 \<le> pow2 1024" by (rule pow2_mono) simp
  moreover have "?y < pow2 53" using yK \<open>real_of_int K < 2 ^ 53\<close> by (simp add: pow2_def)
  ultimately have "\<not> pow2 1024 \<le> ?y" by linarith
  then have "double_round x = Finite ?y"
    using xp by (simp add: double_round_def Let_def e_def[symmetric] m_def[symmetric])
  then show ?thesis using yK y0 by blast
qed

lemma double_round_below_one:
  assumes x0: "0 < x" and x1: "x < 1 - 1 / 2 ^ 54"
  shows "\<exists>y. double_round x = Finite y \<and> 0 \<le> y \<and> y < 1"
proof -
  define e where "e = max (- 1074) (ilog2 x - 52)"
  define N where "N = nat (- e)"
  define m where "m = round_half_even (x / pow2 e)"
  have xl: "x < 1" using x1 by (smt (verit) divide_pos_pos zero_less_power zero_less_numeral)
  have c: "2 \<le> \<lceil>1 / x\<rceil>"
  proof -
    have "1 < 1 / x" using x0 xl by simp
    then show ?thesis by linarith
  qed
  then have "0 < \<lceil>1 / x\<rceil> - 1" by linarith
  then have "0 < nat (\<lceil>1 / x\<rceil> - 1)" by (simp only: zero_less_nat_eq)
  then have "0 < bit_length (nat (\<lceil>1 / x\<rceil> - 1))" by (rule bit_length_pos)
  then have il: "ilog2 x \<le> - 1" using xl by (simp add: ilog2_def)
  then have e53: "e \<le> - 53" and e1074: "- 1074 \<le> e" by (auto simp: e_def)
  have N53: "53 \<le> N" using e53 by (simp add: N_def)
  have pe: "pow2 e = 1 / 2 ^ N" using pow2_neg[of e] e53 by (simp add: N_def)
  have z: "x / pow2 e = x * 2 ^ N" by (simp add: pe)
  have "of_int 0 \<le> x * 2 ^ N" using x0 by simp
  then have m0: "0 \<le> m" unfolding m_def z by (rule round_half_even_ge)
  let ?y = "of_int m * pow2 e"
  have y0: "0 \<le> ?y" using m0 by simp
  have y1: "?y < 1"
  proof (cases "x < 1 / 2")
    case True
    obtain N' where N': "N = Suc N'" using N53 by (cases N) auto
    have "x * 2 ^ N \<le> of_int (2 ^ N')" using True by (simp add: N')
    then have "m \<le> 2 ^ N'" unfolding m_def z by (rule round_half_even_le)
    then have "real_of_int m \<le> of_int (2 ^ N')" by (simp only: of_int_le_iff)
    then have "?y \<le> 1 / 2" by (simp add: pe N' field_simps)
    then show ?thesis by simp
  next
    case False
    then have "1 / x \<le> 2" using x0 by (simp add: field_simps)
    then have "\<lceil>1 / x\<rceil> \<le> 2" by (simp add: ceiling_le_iff)
    with c have "\<lceil>1 / x\<rceil> = 2" by linarith
    then have "ilog2 x = - 1" using xl by (simp add: ilog2_def bit_length.simps)
    then have "e = - 53" by (simp add: e_def)
    then have N: "N = 53" by (simp add: N_def)
    have "x * 2 ^ 53 < of_int (2 ^ 53) - 1 / 2" using x1 by (simp add: field_simps)
    then have "m < 2 ^ 53" unfolding m_def z N by (rule round_half_even_less)
    then have "real_of_int m < of_int (2 ^ 53)" by (simp only: of_int_less_iff)
    then show ?thesis by (simp add: pe N field_simps)
  qed
  have "pow2 0 \<le> pow2 1024" by (rule pow2_mono) simp
  then have "\<not> pow2 1024 \<le> ?y" using y1 by (simp add: pow2_def)
  then have "double_round x = Finite ?y"
    using x0 by (simp add: double_round_def Let_def e_def[symmetric] m_def[symmetric])
  then show ?thesis using y0 y1 by blast
qed

lemma is_double_form:
  assumes "is_double x" and xp: "0 < x"
  shows "\<exists>m e. x = of_int m * pow2 e \<and> x < pow2 (e + 53)"
proof -
  define e where "e = max (- 1074) (ilog2 x - 52)"
  define m where "m = round_half_even (x / pow2 e)"
  have "double_round x = Finite x" using assms(1) by (simp add: is_double_def)
  then have "x = of_int m * pow2 e"
    using xp by (simp add: double_round_def Let_def e_def[symmetric] m_def[symmetric] split: if_splits)
  moreover have "x < pow2 (e + 53)"
  proof -
    have "ilog2 x + 1 \<le> e + 53" by (simp add: e_def)
    then have "pow2 (ilog2 x + 1) \<le> pow2 (e + 53)" by (rule pow2_mono)
    then show ?thesis using ilog2_upper[OF xp] by linarith
  qed
  ultimately show ?thesis by blast
qed

lemma multiples_gap:
  assumes a: "a = of_int ma * pow2 ea" and b: "b = of_int mb * pow2 eb" and ab: "a < b"
  shows "pow2 (min ea eb) \<le> b - a"
proof -
  let ?d = "min ea eb"
  have a': "a = of_int (ma * 2 ^ nat (ea - ?d)) * pow2 ?d"
    unfolding a using pow2_split[of ?d ea] by simp
  have b': "b = of_int (mb * 2 ^ nat (eb - ?d)) * pow2 ?d"
    unfolding b using pow2_split[of ?d eb] by simp
  let ?A = "ma * 2 ^ nat (ea - ?d)" and ?B = "mb * 2 ^ nat (eb - ?d)"
  have "of_int ?A * pow2 ?d < of_int ?B * pow2 ?d" using ab a' b' by simp
  then have "real_of_int ?A < of_int ?B" by (simp only: mult_less_cancel_right_pos[OF pow2_pos])
  then have "?A < ?B" by (simp only: of_int_less_iff)
  then have "1 \<le> ?B - ?A" by simp
  then have "real_of_int 1 \<le> of_int (?B - ?A)" by (simp only: of_int_le_iff)
  then have "1 * pow2 ?d \<le> (of_int ?B - of_int ?A) * pow2 ?d"
    by (intro mult_right_mono) simp_all
  also have "\<dots> = of_int ?B * pow2 ?d - of_int ?A * pow2 ?d" by (simp only: left_diff_distrib)
  also have "\<dots> = b - a" using a' b' by (simp only:)
  finally show ?thesis by simp
qed

lemma double_div_less_one:
  assumes da: "is_double a" and db: "is_double b" and a0: "0 \<le> a" and ab: "a < b"
  shows "\<exists>y. double_div a b = Finite y \<and> 0 \<le> y \<and> y < 1"
proof (cases "a = 0")
  case True
  then show ?thesis using ab by (simp add: double_div_def double_round_def)
next
  case False
  then have ap: "0 < a" using a0 by simp
  have bp: "0 < b" using a0 ab by simp
  obtain ma ea where a: "a = of_int ma * pow2 ea" and au: "a < pow2 (ea + 53)"
    using is_double_form[OF da ap] by blast
  obtain mb eb where b: "b = of_int mb * pow2 eb" and bu: "b < pow2 (eb + 53)"
    using is_double_form[OF db bp] by blast
  have gap: "pow2 (min ea eb) \<le> b - a" using multiples_gap[OF a b ab] .
  have p53: "pow2 (e + 53) = pow2 e * 2 ^ 53" for e
    using pow2_add[of e 53] by (simp add: pow2_def)
  have key: "b < (b - a) * 2 ^ 54"
  proof (cases "eb \<le> ea")
    case True
    then have "min ea eb = eb" by (rule min_absorb2)
    then have "pow2 eb \<le> b - a" using gap by (simp only:)
    then have "pow2 eb * 2 ^ 53 \<le> (b - a) * 2 ^ 53" by simp
    then have "b < (b - a) * 2 ^ 53" using bu by (simp add: p53)
    moreover have "(b - a) * 2 ^ 53 \<le> (b - a) * 2 ^ 54" using ab by simp
    ultimately show ?thesis by linarith
  next
    case False
    then have "min ea eb = ea" by (intro min_absorb1) simp
    then have g: "pow2 ea \<le> b - a" using gap by (simp only:)
    show ?thesis
    proof (cases "2 * a \<le> b")
      case True
      then have "b \<le> (b - a) * 2" by simp
      moreover have "(b - a) * 2 < (b - a) * 2 ^ 54" using ab by simp
      ultimately show ?thesis by linarith
    next
      case False
      have "pow2 ea * 2 ^ 53 \<le> (b - a) * 2 ^ 53" using g by simp
      then have "a < (b - a) * 2 ^ 53" using au by (simp add: p53)
      then show ?thesis using False by simp
    qed
  qed
  have "a / b < 1 - 1 / 2 ^ 54"
  proof -
    have "b / 2 ^ 54 < b - a" using key by (simp add: field_simps)
    then have "a < b * (1 - 1 / 2 ^ 54)" by (simp add: algebra_simps)
    then show ?thesis using bp by (simp add: field_simps)
  qed
  moreover have "0 < a / b" using ap bp by simp
  ultimately show ?thesis
    using double_round_below_one[of "a / b"] bp by (simp add: double_div_def)
qed

lemma double_round_between:
  assumes Kx: "of_int K \<le> x" and xL: "x \<le> of_int L" and K: "0 \<le> K" and L: "L < 2 ^ 53"
  shows "\<exists>y. double_round x = Finite y \<and> of_int K \<le> y \<and> y \<le> of_int L"
proof (cases "x = 0")
  case True
  then show ?thesis using Kx xL K by (simp add: double_round_def)
next
  case False
  have x0: "0 \<le> x" using Kx K by (smt (verit) of_int_nonneg)
  then have xp: "0 < x" using False by simp
  define e where "e = max (- 1074) (ilog2 x - 52)"
  define N where "N = nat (- e)"
  define m where "m = round_half_even (x / pow2 e)"
  have L': "real_of_int L < 2 ^ 53" using L by (metis of_int_less_numeral_power_cancel_iff)
  then have "x < 2 ^ 53" using xL by linarith
  from ilog2_le[OF this] have e0: "e \<le> 0" by (auto simp: e_def)
  have pe: "pow2 e = 1 / 2 ^ N" using pow2_neg[OF e0] by (simp add: N_def)
  have z: "x / pow2 e = x * 2 ^ N" by (simp add: pe)
  have "x * 2 ^ N \<le> of_int (L * 2 ^ N)" using xL by simp
  then have mL: "m \<le> L * 2 ^ N" unfolding m_def z by (rule round_half_even_le)
  have "of_int (K * 2 ^ N) \<le> x * 2 ^ N" using Kx by simp
  then have mK: "K * 2 ^ N \<le> m" unfolding m_def z by (rule round_half_even_ge)
  let ?y = "of_int m * pow2 e"
  have "real_of_int m \<le> of_int (L * 2 ^ N)" using mL by (simp only: of_int_le_iff)
  then have yL: "?y \<le> of_int L" by (simp add: pe field_simps)
  have "real_of_int (K * 2 ^ N) \<le> of_int m" using mK by (simp only: of_int_le_iff)
  then have yK: "of_int K \<le> ?y" by (simp add: pe field_simps)
  have "pow2 53 \<le> pow2 1024" by (rule pow2_mono) simp
  moreover have "?y < pow2 53" using yL L' by (simp add: pow2_def)
  ultimately have "\<not> pow2 1024 \<le> ?y" by linarith
  then have "double_round x = Finite ?y"
    using xp by (simp add: double_round_def Let_def e_def[symmetric] m_def[symmetric])
  then show ?thesis using yL yK by blast
qed

lemma quotient_fits:
  assumes "0 < b" and "0 \<le> a" and "a / b \<le> 2 ^ 31 - 1"
  shows "finite_quotient a b \<and> int_quotient a b \<and> 0 \<le> floor_quotient a b"
proof -
  have "a / b \<le> real_of_int (2 ^ 31 - 1)" using assms(3) by simp
  moreover have "0 \<le> a / b" using assms(1,2) by simp
  ultimately obtain y where y: "double_round (a / b) = Finite y" "0 \<le> y" "y \<le> of_int (2 ^ 31 - 1)"
    using double_round_bounded[of "a / b" "2 ^ 31 - 1"] by auto
  have d: "double_div a b = Finite y" using assms(1) y(1) by (simp add: double_div_def)
  have "\<lfloor>y\<rfloor> \<le> 2 ^ 31 - 1" using y(3) by (simp only: floor_le_iff)
  moreover have "0 \<le> \<lfloor>y\<rfloor>" using y(2) by simp
  ultimately show ?thesis
    by (simp add: finite_quotient_def int_quotient_def floor_quotient_def d)
qed

lemma floor_quotient_near:
  assumes "0 < b" and "0 \<le> a" and "a / b \<le> 2 ^ 31 - 1"
  shows "\<lfloor>a / b\<rfloor> \<le> floor_quotient a b \<and> floor_quotient a b \<le> \<lfloor>a / b\<rfloor> + 1"
proof -
  let ?x = "a / b"
  have x0: "0 \<le> ?x" using assms(1,2) by simp
  have "\<lfloor>?x\<rfloor> \<le> 2 ^ 31 - 1" using assms(3) by (simp only: floor_le_iff) simp
  then have L: "\<lfloor>?x\<rfloor> + 1 < 2 ^ 53" by simp
  have "of_int \<lfloor>?x\<rfloor> \<le> ?x" "?x \<le> of_int (\<lfloor>?x\<rfloor> + 1)" by linarith+
  moreover have "0 \<le> \<lfloor>?x\<rfloor>" using x0 by simp
  ultimately obtain y where y: "double_round ?x = Finite y" "of_int \<lfloor>?x\<rfloor> \<le> y"
      "y \<le> of_int (\<lfloor>?x\<rfloor> + 1)"
    using double_round_between[OF _ _ _ L, where x = ?x] by blast
  have d: "double_div a b = Finite y" using assms(1) y(1) by (simp add: double_div_def)
  have "\<lfloor>?x\<rfloor> \<le> \<lfloor>y\<rfloor>" using y(2) by (simp only: le_floor_iff)
  moreover have "\<lfloor>y\<rfloor> \<le> \<lfloor>?x\<rfloor> + 1" using y(3) by (simp only: floor_le_iff)
  ultimately show ?thesis by (simp add: floor_quotient_def d)
qed

lemma floor_quotient_short:
  assumes "is_double a" and "is_double b" and "0 \<le> a" and "a < b"
  shows "floor_quotient a b = 0"
proof -
  obtain y where "double_div a b = Finite y" "0 \<le> y" "y < 1"
    using double_div_less_one[OF assms] by blast
  then show ?thesis by (simp add: floor_quotient_def floor_eq_iff)
qed

text \<open>The definitions that evaluate a quotient at given numbers.\<close>

lemmas double_eval = double_div_def double_round_def double_literal_def ilog2_def pow2_def
  round_half_even_def floor_quotient_def finite_quotient_def int_quotient_def is_double_def
  bit_length.simps Let_def

lemma double_literal_tenth: "double_literal 0.1 = 3602879701896397 / 36028797018963968"
  by (simp add: double_eval)

section \<open>Properties of the cost matrix\<close>

lemma mirror_inner:
  assumes "rows mv = n" "cols mv = n" "c < n" "c < k" "k \<le> n"
  shows "foldE (\<lambda>r. mirror_entry c r) [Suc c..<k] mv =
         Inr (mv\<lparr>coeffs := (\<lambda>i j. if j = c \<and> c < i \<and> i < k then coeffs mv c i else coeffs mv i j)\<rparr>)"
  using assms(4,5)
proof (induction k)
  case 0
  then show ?case by simp
next
  case (Suc k)
  show ?case
  proof (cases "c < k")
    case False
    with Suc.prems have "k = c" by simp
    then show ?thesis by (auto intro!: MatrixXd.equality ext)
  next
    case True
    with Suc have IH: "foldE (\<lambda>r. mirror_entry c r) [Suc c..<k] mv =
         Inr (mv\<lparr>coeffs := (\<lambda>i j. if j = c \<and> c < i \<and> i < k then coeffs mv c i else coeffs mv i j)\<rparr>)"
      by simp
    from True have "[Suc c..<Suc k] = [Suc c..<k] @ [k]" by simp
    then have "foldE (\<lambda>r. mirror_entry c r) [Suc c..<Suc k] mv =
       mirror_entry c k (mv\<lparr>coeffs := (\<lambda>i j. if j = c \<and> c < i \<and> i < k then coeffs mv c i else coeffs mv i j)\<rparr>)"
      by (simp only: foldE_snoc IH bindE_Inr)
    also have "\<dots> = Inr (mv\<lparr>coeffs := (\<lambda>i j. if j = c \<and> c < i \<and> i < Suc k then coeffs mv c i else coeffs mv i j)\<rparr>)"
      using True Suc.prems assms(1,2,3)
      by (auto simp: mirror_entry_def get_coeff_def set_coeff_def intro!: MatrixXd.equality ext)
    finally show ?thesis .
  qed
qed

lemma mirror_outer:
  assumes "rows mv = n" "cols mv = n" "k \<le> n"
  shows "foldE (\<lambda>c. foldE (\<lambda>r. mirror_entry c r) [Suc c..<n]) [0..<k] mv =
         Inr (mv\<lparr>coeffs := (\<lambda>i j. if j < k \<and> j < i \<and> i < n then coeffs mv j i else coeffs mv i j)\<rparr>)"
  using assms(3)
proof (induction k)
  case 0
  then show ?case by simp
next
  case (Suc k)
  then have IH: "foldE (\<lambda>c. foldE (\<lambda>r. mirror_entry c r) [Suc c..<n]) [0..<k] mv =
         Inr (mv\<lparr>coeffs := (\<lambda>i j. if j < k \<and> j < i \<and> i < n then coeffs mv j i else coeffs mv i j)\<rparr>)"
    by simp
  have kn: "k < n" using Suc.prems by simp
  have "foldE (\<lambda>c. foldE (\<lambda>r. mirror_entry c r) [Suc c..<n]) [0..<Suc k] mv =
      foldE (\<lambda>r. mirror_entry k r) [Suc k..<n]
        (mv\<lparr>coeffs := (\<lambda>i j. if j < k \<and> j < i \<and> i < n then coeffs mv j i else coeffs mv i j)\<rparr>)"
    by (simp only: upt_Suc_append[OF le0] foldE_snoc IH bindE_Inr)
  also have "\<dots> = Inr (mv\<lparr>coeffs := (\<lambda>i j. if j < Suc k \<and> j < i \<and> i < n then coeffs mv j i else coeffs mv i j)\<rparr>)"
    using kn assms(1,2)
    by (subst mirror_inner[where n=n]) (auto intro!: MatrixXd.equality ext)
  finally show ?case .
qed

lemma mirror_eq:
  assumes "rows mv = n" "cols mv = n"
  shows "mirror mv = Inr (mv\<lparr>coeffs := (\<lambda>i j. if j < i \<and> i < n then coeffs mv j i else coeffs mv i j)\<rparr>)"
  using mirror_outer[OF assms, of n] assms
  by (auto simp: mirror_def intro!: MatrixXd.equality ext)

lemma var_index_block: "var_index s dm e = 4 * (2 * s + dm) + e"
  by (simp add: var_index_def idx)

lemma blk_div: "e < 4 \<Longrightarrow> (4 * b + e) div 4 = (b::nat)" "e < 4 \<Longrightarrow> (4 * b + e) mod 4 = (e::nat)"
  by simp_all

lemma do_all_Cons_Inr: "c s = Inr s' \<Longrightarrow> do_all (c # cs) s = do_all cs s'"
  by simp

lemma with_coeffs_simps [simp]:
  "coeffs (M (with_coeffs f mv)) = f"
  "rows (M (with_coeffs f mv)) = rows (M mv)"
  "cols (M (with_coeffs f mv)) = cols (M mv)"
  "v (with_coeffs f mv) = v mv"
  "with_coeffs f (with_coeffs g mv) = with_coeffs f mv"
  by (simp_all add: with_coeffs_def)

lemma inM_set_coeff_ok: "i < rows (M mv) \<Longrightarrow> j < cols (M mv) \<Longrightarrow>
   inM (set_coeff i j x) mv = Inr (with_coeffs ((coeffs (M mv))(i := (coeffs (M mv) i)(j := x))) mv)"
  by (simp add: inM_def set_coeff_def with_coeffs_def)

lemma inM_mirror:
  assumes "rows (M mv) = n" "cols (M mv) = n"
  shows "inM mirror mv = Inr (with_coeffs (\<lambda>i j. if j < i \<and> i < n then coeffs (M mv) j i else coeffs (M mv) i j) mv)"
  by (simp add: inM_def mirror_eq[OF assms] with_coeffs_def)

lemma cost_dim_writes:
  assumes n: "rows (M cf) = n" "cols (M cf) = n" and a: "4 * b + 3 < n" and dm: "dm < 2"
    and b: "b = 2 * spline_id s + dm"
  shows "cost_dim s w dm cf = Inr (with_coeffs (\<lambda>i j.
            if j < i \<and> i < n then
              (if 4 * b \<le> j \<and> j \<le> i \<and> i \<le> 4 * b + 3
               then cost_block (duration s) (at2 w dm) (j - 4 * b) (i - 4 * b) else coeffs (M cf) j i)
            else
              (if 4 * b \<le> i \<and> i \<le> j \<and> j \<le> 4 * b + 3
               then cost_block (duration s) (at2 w dm) (i - 4 * b) (j - 4 * b) else coeffs (M cf) i j)) cf)"
proof -
  let ?W = "\<lambda>i j. if 4 * b \<le> i \<and> i \<le> j \<and> j \<le> 4 * b + 3
               then cost_block (duration s) (at2 w dm) (i - 4 * b) (j - 4 * b) else coeffs (M cf) i j"
  have vi: "var_index (spline_id s) dm e = 4 * b + e" for e
    by (simp add: var_index_block b)
  have "cost_dim s w dm cf = inM mirror (with_coeffs ?W cf)"
    unfolding cost_dim_def Let_def vi
    using n a
    apply (simp add: inM_set_coeff_ok idx cache_exponents_nth)
    apply (rule arg_cong[where f="\<lambda>f. inM mirror (with_coeffs f cf)"])
    apply (rule ext)+
    apply (simp add: cost_block_def acc_coeff_def)
    done
  also have "\<dots> = Inr (with_coeffs (\<lambda>i j. if j < i \<and> i < n then ?W j i else ?W i j) cf)"
    using n by (subst inM_mirror[where n=n]) (simp_all cong: if_cong)
  finally show ?thesis by simp
qed

lemma cost_block_sym: "cost_block T w e1 e2 = cost_block T w e2 e1"
proof -
  have "7 - e1 - e2 = 7 - e2 - e1" by simp
  then show ?thesis by (simp add: cost_block_def)
qed

lemma div8: "i div 8 = i div 4 div (2::nat)"
  by (simp add: div_mult2_eq[symmetric])

lemma cost_closed_sym: "cost_closed ss w m i j = cost_closed ss w m j i"
  by (auto simp: cost_closed_def cost_block_sym div8)

lemma in_block: "(4 * b \<le> i \<and> i \<le> 4 * b + 3) = (i div 4 = (b::nat))"
  by auto

lemma cost_dim_step:
  assumes n: "rows (M cf) = n" "cols (M cf) = n" and a: "4 * b + 3 < n" and dm: "dm < 2"
    and b: "b = 2 * spline_id s + dm"
    and s: "duration s = duration (ss ! (b div 2))"
    and inv: "coeffs (M cf) = cost_closed ss w b"
  shows "cost_dim s w dm cf = Inr (with_coeffs (cost_closed ss w (Suc b)) cf)"
proof -
  have dmb: "dm = b mod 2" using b dm by simp
  have eq: "(if j < i \<and> i < n then
              (if 4 * b \<le> j \<and> j \<le> i \<and> i \<le> 4 * b + 3
               then cost_block (duration s) (at2 w dm) (j - 4 * b) (i - 4 * b) else coeffs (M cf) j i)
            else
              (if 4 * b \<le> i \<and> i \<le> j \<and> j \<le> 4 * b + 3
               then cost_block (duration s) (at2 w dm) (i - 4 * b) (j - 4 * b) else coeffs (M cf) i j))
         = cost_closed ss w (Suc b) i j" for i j
  proof -
    have blk: "cost_closed ss w (Suc b) i j = cost_block (duration s) (at2 w dm) (i - 4 * b) (j - 4 * b)"
      if "i div 4 = b" "j div 4 = b" for i j
    proof -
      have "i mod 4 = i - 4 * b" "j mod 4 = j - 4 * b" "i div 8 = b div 2"
        using that by (auto simp: minus_mult_div_eq_mod[symmetric] div_mult2_eq[symmetric])
      then show ?thesis using that by (simp add: cost_closed_def s dmb)
    qed
    have old: "cost_closed ss w (Suc b) i j = cost_closed ss w b i j"
      if "i div 4 \<noteq> b \<or> j div 4 \<noteq> b" for i j
      using that by (auto simp: cost_closed_def less_Suc_eq)
    show ?thesis
    proof (cases "i div 4 = b \<and> j div 4 = b")
      case True
      then have "i < n" "j < n" using a by auto
      with True show ?thesis
        using blk[of i j] blk[of j i] cost_closed_sym[of ss w "Suc b" i j]
        by (auto simp: in_block[symmetric])
    next
      case False
      then have "\<not> (4 * b \<le> j \<and> j \<le> i \<and> i \<le> 4 * b + 3)" "\<not> (4 * b \<le> i \<and> i \<le> j \<and> j \<le> 4 * b + 3)"
        by (auto simp: in_block[symmetric])
      then have "(if j < i \<and> i < n then
              (if 4 * b \<le> j \<and> j \<le> i \<and> i \<le> 4 * b + 3
               then cost_block (duration s) (at2 w dm) (j - 4 * b) (i - 4 * b) else coeffs (M cf) j i)
            else
              (if 4 * b \<le> i \<and> i \<le> j \<and> j \<le> 4 * b + 3
               then cost_block (duration s) (at2 w dm) (i - 4 * b) (j - 4 * b) else coeffs (M cf) i j))
          = (if j < i \<and> i < n then coeffs (M cf) j i else coeffs (M cf) i j)"
        by (simp only: if_False)
      also have "\<dots> = cost_closed ss w b i j"
        using cost_closed_sym[of ss w b i j] by (simp add: inv)
      also have "\<dots> = cost_closed ss w (Suc b) i j"
        using False old[of i j] by simp
      finally show ?thesis .
    qed
  qed
  show ?thesis
    by (subst cost_dim_writes[OF n a dm b]) (simp only: eq)
qed

lemma cost_spline_step:
  assumes n: "rows (M cf) = n" "cols (M cf) = n" and a: "8 * k + 7 < n"
    and id: "spline_id s = k" and s: "duration s = duration (ss ! k)"
    and inv: "coeffs (M cf) = cost_closed ss w (2 * k)"
  shows "foldE (cost_dim s w) [X..<Suc Y] cf = Inr (with_coeffs (cost_closed ss w (2 * Suc k)) cf)"
proof -
  have 1: "cost_dim s w 0 cf = Inr (with_coeffs (cost_closed ss w (Suc (2 * k))) cf)"
    using n a id s inv by (intro cost_dim_step[where n=n]) auto
  have 2: "cost_dim s w (Suc 0) (with_coeffs (cost_closed ss w (Suc (2 * k))) cf)
       = Inr (with_coeffs (cost_closed ss w (Suc (Suc (2 * k)))) cf)"
    using n a id s
    by (subst cost_dim_step[where n=n and b="Suc (2 * k)" and ss=ss]) auto
  show ?thesis
    unfolding dims_XY by (simp add: 1 2)
qed

lemma cost_loop:
  assumes wf: "wf_splines ss" and k: "k \<le> length ss" and n: "n = GetOptCoeffCount ss"
  shows "foldE (\<lambda>s. foldE (cost_dim s w) [X..<Suc Y]) (take k ss) (MatVec_new n n)
         = Inr (with_coeffs (cost_closed ss w (2 * k)) (MatVec_new n n))"
  using k
proof (induction k)
  case 0
  show ?case
    by (simp add: with_coeffs_def cost_closed_def MatVec_new_def MatrixXd_Zero_def)
next
  case (Suc k)
  then have k: "k < length ss" by simp
  have IH: "foldE (\<lambda>s. foldE (cost_dim s w) [X..<Suc Y]) (take k ss) (MatVec_new n n)
         = Inr (with_coeffs (cost_closed ss w (2 * k)) (MatVec_new n n))"
    using Suc by simp
  have bound: "8 * k + 7 < n" using k by (simp add: n GetOptCoeffCount_def idx)
  have "foldE (\<lambda>s. foldE (cost_dim s w) [X..<Suc Y]) (take (Suc k) ss) (MatVec_new n n)
      = foldE (cost_dim (ss ! k) w) [X..<Suc Y] (with_coeffs (cost_closed ss w (2 * k)) (MatVec_new n n))"
    by (simp only: take_Suc_conv_app_nth[OF k] foldE_snoc IH bindE_Inr)
  also have "\<dots> = Inr (with_coeffs (cost_closed ss w (2 * Suc k)) (MatVec_new n n))"
    using bound wf_splines_nth[OF wf k]
    by (subst cost_spline_step[where n=n and k=k and ss=ss]) simp_all
  finally show ?case .
qed

lemma CreateMinAccCostFunction_closed:
  assumes wf: "wf_splines ss"
  shows "CreateMinAccCostFunction ss w =
         Inr (with_coeffs (cost_closed ss w (2 * length ss))
                (MatVec_new (GetOptCoeffCount ss) (GetOptCoeffCount ss)))"
  using cost_loop[OF wf le_refl refl, of w]
  by (simp add: CreateMinAccCostFunction_def Let_def)

lemma quintic_derivatives:
  "(quintic_pos a b c d e f has_real_derivative quintic_vel a b c d e t) (at t)"
  "(quintic_vel a b c d e has_real_derivative quintic_acc a b c d t) (at t)"
  unfolding quintic_pos_def quintic_vel_def quintic_acc_def
  by (auto intro!: derivative_eq_intros simp: eval_nat_numeral)

lemma sq_acc_primitive_deriv:
  "(sq_acc_primitive a b c d has_real_derivative (quintic_acc a b c d t)\<^sup>2) (at t)"
  unfolding sq_acc_primitive_def quintic_acc_def
  by (auto intro!: derivative_eq_intros simp: power2_eq_square power3_eq_cube algebra_simps eval_nat_numeral)

lemma primitive_diff:
  assumes "\<And>t. (G has_real_derivative (quintic_acc a b c d t)\<^sup>2) (at t)"
  shows "G T - G 0 = sq_acc_primitive a b c d T"
proof -
  have "((\<lambda>t. G t - sq_acc_primitive a b c d t) has_real_derivative 0) (at t)" for t
    using DERIV_diff[OF assms[of t] sq_acc_primitive_deriv[of a b c d t]] by simp
  then have "G T - sq_acc_primitive a b c d T = G 0 - sq_acc_primitive a b c d 0"
    using DERIV_isconst_all[of "\<lambda>t. G t - sq_acc_primitive a b c d t" T 0] by blast
  then show ?thesis by (simp add: sq_acc_primitive_def)
qed

lemma sum4: "(\<Sum>e<4. f e) = f 0 + f 1 + f 2 + f (3::nat)"
  by (simp add: eval_nat_numeral)

lemma block_form:
  "(\<Sum>e1<4. \<Sum>e2<4. x e1 * cost_block T w e1 e2 * x e2)
     = w * sq_acc_primitive (x 0) (x 1) (x 2) (x 3) T"
  unfolding sum4
  by (simp add: cost_block_def acc_coeff_def sq_acc_primitive_def power2_eq_square algebra_simps)

lemma sum_group: "(\<Sum>i<m * k. g i) = (\<Sum>b<m. \<Sum>e<k. g (k * b + e :: nat) :: real)"
proof -
  have "(\<Sum>i<m * k. g i) = (\<Sum>b<m. sum g {b * k..<b * k + k})"
    by (rule sum.nat_group[symmetric])
  also have "\<dots> = (\<Sum>b<m. \<Sum>e<k. g (k * b + e))"
  proof (rule sum.cong[OF refl])
    fix b
    have "sum g {b * k..<b * k + k} = sum g {0 + b * k..<k + b * k}"
      by (simp add: add.commute)
    also have "\<dots> = (\<Sum>e = 0..<k. g (e + b * k))"
      by (rule sum.shift_bounds_nat_ivl)
    also have "\<dots> = (\<Sum>e<k. g (k * b + e))"
      by (simp add: atLeast0LessThan add.commute mult.commute)
    finally show "sum g {b * k..<b * k + k} = (\<Sum>e<k. g (k * b + e))" .
  qed
  finally show ?thesis .
qed

lemma cost_closed_block:
  assumes "e1 < 4" "e2 < 4"
  shows "cost_closed ss w m (4 * b + e1) (4 * b' + e2) =
     (if b' = b \<and> b < m then cost_block (duration (ss ! (b div 2))) (at2 w (b mod 2)) e1 e2 else 0)"
  using assms by (simp add: cost_closed_def div8)

lemma quad_form_closed:
  "quad_form (m * 4) (cost_closed ss w m) x =
     (\<Sum>b<m. at2 w (b mod 2) *
        sq_acc_primitive (x (4 * b + 0)) (x (4 * b + 1)) (x (4 * b + 2)) (x (4 * b + 3))
          (duration (ss ! (b div 2))))"
proof -
  have inner: "(\<Sum>j<m * 4. x (4 * b + e1) * cost_closed ss w m (4 * b + e1) j * x j)
      = (\<Sum>e2<4. x (4 * b + e1) * cost_block (duration (ss ! (b div 2))) (at2 w (b mod 2)) e1 e2 * x (4 * b + e2))"
    if "b < m" "e1 < 4" for b e1
  proof -
    have "(\<Sum>j<m * 4. x (4 * b + e1) * cost_closed ss w m (4 * b + e1) j * x j)
       = (\<Sum>b'<m. \<Sum>e2<4. x (4 * b + e1) * cost_closed ss w m (4 * b + e1) (4 * b' + e2) * x (4 * b' + e2))"
      by (rule sum_group)
    also have "\<dots> = (\<Sum>b'<m. if b' = b then (\<Sum>e2<4. x (4 * b + e1) *
          cost_block (duration (ss ! (b div 2))) (at2 w (b mod 2)) e1 e2 * x (4 * b + e2)) else 0)"
      using that by (intro sum.cong refl) (simp add: cost_closed_block)
    also have "\<dots> = (\<Sum>e2<4. x (4 * b + e1) *
          cost_block (duration (ss ! (b div 2))) (at2 w (b mod 2)) e1 e2 * x (4 * b + e2))"
      using that by (simp add: sum.delta)
    finally show ?thesis .
  qed
  have "quad_form (m * 4) (cost_closed ss w m) x
     = (\<Sum>b<m. \<Sum>e1<4. \<Sum>j<m * 4. x (4 * b + e1) * cost_closed ss w m (4 * b + e1) j * x j)"
    unfolding quad_form_def by (rule sum_group)
  also have "\<dots> = (\<Sum>b<m. \<Sum>e1<4. \<Sum>e2<4. x (4 * b + e1) *
       cost_block (duration (ss ! (b div 2))) (at2 w (b mod 2)) e1 e2 * x (4 * b + e2))"
    by (rule sum.cong[OF refl], rule sum.cong[OF refl]) (simp add: inner)
  also have "\<dots> = (\<Sum>b<m. at2 w (b mod 2) *
        sq_acc_primitive (x (4 * b + 0)) (x (4 * b + 1)) (x (4 * b + 2)) (x (4 * b + 3))
          (duration (ss ! (b div 2))))"
    by (intro sum.cong refl) (rule block_form[where x = "\<lambda>e. x (4 * _ + e)"])
  finally show ?thesis .
qed

lemma cost_loop_sym:
  assumes "rows (M cf) = n" "cols (M cf) = n" "\<forall>i<n. \<forall>j<n. coeffs (M cf) i j = coeffs (M cf) j i"
    and "\<forall>s\<in>set ss. 8 * spline_id s + 7 < n"
  shows "\<exists>cf'. foldE (\<lambda>s. foldE (cost_dim s w) [X..<Suc Y]) ss cf = Inr cf' \<and>
           rows (M cf') = n \<and> cols (M cf') = n \<and> (\<forall>i<n. \<forall>j<n. coeffs (M cf') i j = coeffs (M cf') j i)"
  using assms
proof (induction ss arbitrary: cf)
  case Nil
  then show ?case by simp
next
  case (Cons s ss)
  have a: "4 * (2 * spline_id s + 0) + 3 < n" "4 * (2 * spline_id s + Suc 0) + 3 < n"
    using Cons.prems(4) by simp_all
  obtain cf1 where 1: "cost_dim s w 0 cf = Inr cf1" "rows (M cf1) = n" "cols (M cf1) = n"
    using cost_dim_writes[OF Cons.prems(1,2) a(1) _ refl, of w] Cons.prems(1,2) by auto
  obtain cf2 where 2: "cost_dim s w (Suc 0) cf1 = Inr cf2" "rows (M cf2) = n" "cols (M cf2) = n"
     "\<forall>i<n. \<forall>j<n. coeffs (M cf2) i j = coeffs (M cf2) j i"
    using cost_dim_writes[OF 1(2,3) a(2) _ refl, of w] 1(2,3) by auto
  have "foldE (\<lambda>s. foldE (cost_dim s w) [X..<Suc Y]) (s # ss) cf
      = foldE (\<lambda>s. foldE (cost_dim s w) [X..<Suc Y]) ss cf2"
    unfolding dims_XY by (simp add: 1 2)
  moreover have "\<forall>s\<in>set ss. 8 * spline_id s + 7 < n" using Cons.prems(4) by simp
  ultimately show ?case
    using Cons.IH[OF 2(2,3,4)] by simp
qed

text \<open>
  Claim C4.  For a spline sequence whose ids are the positions and any per-axis weights, the
  cost builder returns a matrix \<open>M\<close> whose quadratic form \<open>x\<^sup>T M x\<close> is the sum, over the
  segments and the two axes, of the axis weight times the integral over \<open>[0, duration]\<close> of
  the squared second derivative of the quintic with the coefficients \<open>A, B, C, D\<close> that \<open>x\<close>
  holds for that segment and axis.  The integral is \<open>G(duration) - G(0)\<close> for any primitive
  \<open>G\<close> of the squared acceleration.  Every entry that couples two different blocks of four
  coefficients is zero.
\<close>

theorem cost_matrix_integral_of_squared_acceleration:
  assumes wf: "wf_splines splines"
    and G: "\<And>s dm t. s < length splines \<Longrightarrow> dm < kDim2d \<Longrightarrow>
        (G s dm has_real_derivative
          (quintic_acc (x (var_index s dm A)) (x (var_index s dm B))
                       (x (var_index s dm C)) (x (var_index s dm D)) t)\<^sup>2) (at t)"
  shows "\<exists>cf. CreateMinAccCostFunction splines weight = Inr cf \<and>
           rows (M cf) = GetOptCoeffCount splines \<and> cols (M cf) = GetOptCoeffCount splines \<and>
           quad_form (GetOptCoeffCount splines) (coeffs (M cf)) x =
             (\<Sum>s<length splines. \<Sum>dm<kDim2d.
                at2 weight dm * (G s dm (duration (splines ! s)) - G s dm 0)) \<and>
           (\<forall>i j. i div kOptCoeff \<noteq> j div kOptCoeff \<longrightarrow> coeffs (M cf) i j = 0)"
proof -
  let ?n = "GetOptCoeffCount splines"
  let ?cf = "with_coeffs (cost_closed splines weight (2 * length splines)) (MatVec_new ?n ?n)"
  have n: "?n = (2 * length splines) * 4"
    by (simp add: GetOptCoeffCount_def idx)
  have "quad_form ?n (coeffs (M ?cf)) x =
      (\<Sum>b<length splines * 2. at2 weight (b mod 2) *
        sq_acc_primitive (x (4 * b + 0)) (x (4 * b + 1)) (x (4 * b + 2)) (x (4 * b + 3))
          (duration (splines ! (b div 2))))"
    unfolding n using quad_form_closed[of "2 * length splines" splines weight x]
    by (simp add: mult.commute)
  also have "\<dots> = (\<Sum>s<length splines. \<Sum>dm<2. at2 weight ((2 * s + dm) mod 2) *
        sq_acc_primitive (x (4 * (2 * s + dm) + 0)) (x (4 * (2 * s + dm) + 1))
          (x (4 * (2 * s + dm) + 2)) (x (4 * (2 * s + dm) + 3))
          (duration (splines ! ((2 * s + dm) div 2))))"
    by (rule sum_group)
  also have "\<dots> = (\<Sum>s<length splines. \<Sum>dm<kDim2d.
                at2 weight dm * (G s dm (duration (splines ! s)) - G s dm 0))"
  proof (rule sum.cong[OF refl], unfold kDim2d_def, rule sum.cong[OF refl])
    fix s dm assume "s \<in> {..<length splines}" "dm \<in> {..<2::nat}"
    then have s: "s < length splines" and dm: "dm < kDim2d" by (simp_all add: idx)
    have "G s dm (duration (splines ! s)) - G s dm 0 =
        sq_acc_primitive (x (var_index s dm A)) (x (var_index s dm B))
                       (x (var_index s dm C)) (x (var_index s dm D)) (duration (splines ! s))"
      by (rule primitive_diff) (rule G[OF s dm])
    then show "at2 weight ((2 * s + dm) mod 2) *
        sq_acc_primitive (x (4 * (2 * s + dm) + 0)) (x (4 * (2 * s + dm) + 1))
          (x (4 * (2 * s + dm) + 2)) (x (4 * (2 * s + dm) + 3))
          (duration (splines ! ((2 * s + dm) div 2)))
        = at2 weight dm * (G s dm (duration (splines ! s)) - G s dm 0)"
      using dm by (simp add: var_index_block idx)
  qed
  finally have qf: "quad_form ?n (coeffs (M ?cf)) x = (\<Sum>s<length splines. \<Sum>dm<kDim2d.
                at2 weight dm * (G s dm (duration (splines ! s)) - G s dm 0))" .
  have off: "\<forall>i j. i div kOptCoeff \<noteq> j div kOptCoeff \<longrightarrow> coeffs (M ?cf) i j = 0"
    by (simp add: cost_closed_def idx)
  have dims: "rows (M ?cf) = ?n" "cols (M ?cf) = ?n" by simp_all
  show ?thesis
    using CreateMinAccCostFunction_closed[OF wf, of weight] qf off dims by blast
qed

theorem cost_matrix_integral_of_squared_acceleration_witness:
  "wf_splines [\<lparr>spline_id = 0, duration = 2, four_leg_supp = False, step = 0\<rparr>] \<and>
   (\<exists>cf. CreateMinAccCostFunction
           [\<lparr>spline_id = 0, duration = 2, four_leg_supp = False, step = 0\<rparr>] (1, 3) = Inr cf \<and>
         quad_form 8 (coeffs (M cf)) (\<lambda>i. 1) =
           (\<Sum>s<(1::nat). \<Sum>dm<(2::nat).
              at2 (1, 3) dm * (sq_acc_primitive 1 1 1 1 2 - sq_acc_primitive 1 1 1 1 0)))"
proof -
  let ?ss = "[\<lparr>spline_id = 0, duration = 2, four_leg_supp = False, step = 0\<rparr>]"
  have wf: "wf_splines ?ss" by (simp add: wf_splines_def)
  have G: "((\<lambda>t. sq_acc_primitive 1 1 1 1 t) has_real_derivative
          (quintic_acc ((\<lambda>i. 1) (var_index s dm A)) ((\<lambda>i. 1) (var_index s dm B))
                       ((\<lambda>i. 1) (var_index s dm C)) ((\<lambda>i. 1) (var_index s dm D)) t)\<^sup>2) (at t)"
    for s dm t
    by (rule sq_acc_primitive_deriv)
  from cost_matrix_integral_of_squared_acceleration
         [of ?ss "\<lambda>s dm. sq_acc_primitive 1 1 1 1" "\<lambda>i. 1" "(1, 3)", OF wf G]
  show ?thesis using wf by (auto simp: GetOptCoeffCount_def idx)
qed

lemma CreateMinAccCostFunction_symmetric:
  assumes "\<forall>s\<in>set splines. spline_id s < length splines"
  shows "\<exists>cf. CreateMinAccCostFunction splines weight = Inr cf \<and>
           rows (M cf) = GetOptCoeffCount splines \<and> cols (M cf) = GetOptCoeffCount splines \<and>
           (\<forall>i<rows (M cf). \<forall>j<cols (M cf). coeffs (M cf) i j = coeffs (M cf) j i)"
proof -
  let ?n = "GetOptCoeffCount splines"
  have "\<forall>s\<in>set splines. 8 * spline_id s + 7 < ?n"
    using assms by (auto simp: GetOptCoeffCount_def idx)
  from cost_loop_sym[OF _ _ _ this, of "MatVec_new ?n ?n" weight]
  show ?thesis
    unfolding CreateMinAccCostFunction_def Let_def by (auto simp del: upt_Suc)
qed

text \<open>
  Claim C5.  For a spline sequence whose ids lie inside the sequence and any per-axis
  weights, the cost builder returns a square matrix that is exactly symmetric.
\<close>

theorem cost_matrix_symmetric:
  assumes "\<forall>s\<in>set splines. spline_id s < length splines"
  shows "\<exists>cf. CreateMinAccCostFunction splines weight = Inr cf \<and>
           rows (M cf) = GetOptCoeffCount splines \<and> cols (M cf) = GetOptCoeffCount splines \<and>
           (\<forall>i<rows (M cf). \<forall>j<cols (M cf). coeffs (M cf) i j = coeffs (M cf) j i)"
  using CreateMinAccCostFunction_symmetric[OF assms] .

theorem cost_matrix_symmetric_witness:
  "spline_id \<lparr>spline_id = 0, duration = 2, four_leg_supp = False, step = 0\<rparr>
     < length [\<lparr>spline_id = 0, duration = 2, four_leg_supp = False, step = 0\<rparr>] \<and>
   (\<exists>cf. CreateMinAccCostFunction
           [\<lparr>spline_id = 0, duration = 2, four_leg_supp = False, step = 0\<rparr>] (1, 3) = Inr cf \<and>
         rows (M cf) = 8 \<and> cols (M cf) = 8 \<and>
         (\<forall>i<rows (M cf). \<forall>j<cols (M cf). coeffs (M cf) i j = coeffs (M cf) j i))"
  using cost_matrix_symmetric
          [of "[\<lparr>spline_id = 0, duration = 2, four_leg_supp = False, step = 0\<rparr>]" "(1, 3)"]
  by (simp add: GetOptCoeffCount_def idx)

section \<open>Properties of the equality constraints\<close>

lemma eq_set_coeff:
  "ri < R \<Longrightarrow> k < Cn \<Longrightarrow>
   steps_to (eq_at R Cn k) (at_row (\<lambda>i. inM (set_coeff ri i x))) (eq_at R Cn k)"
  by (auto simp: steps_to_def eq_at_def dims_ok_def at_row_def inM_def set_coeff_def)

lemma eq_add_col:
  "vsize vec = R \<Longrightarrow> k < Cn \<Longrightarrow>
   steps_to (eq_at R Cn k) (at_row (\<lambda>i. inM (add_col i vec))) (eq_at R Cn k)"
  by (auto simp: steps_to_def eq_at_def dims_ok_def at_row_def inM_def add_col_def)

lemma eq_add_elem:
  "k < Cn \<Longrightarrow>
   steps_to (eq_at R Cn k) (at_row (\<lambda>i. inV (add_elem i x))) (eq_at R Cn k)"
  by (auto simp: steps_to_def eq_at_def dims_ok_def at_row_def inV_def add_elem_def)

lemma eq_add_elem_inc:
  "k < Cn \<Longrightarrow>
   steps_to (eq_at R Cn k) (at_row_inc (\<lambda>i. inV (add_elem i x))) (eq_at R Cn (Suc k))"
  by (auto simp: steps_to_def eq_at_def dims_ok_def at_row_inc_def inV_def add_elem_def)

lemma eq_set_elem_inc:
  "k < Cn \<Longrightarrow>
   steps_to (eq_at R Cn k) (at_row_inc (\<lambda>i. inV (set_elem i x))) (eq_at R Cn (Suc k))"
  by (auto simp: steps_to_def eq_at_def dims_ok_def at_row_inc_def inV_def set_elem_def)

lemmas eq_stmts = eq_set_coeff eq_add_col eq_add_elem eq_add_elem_inc eq_set_elem_inc

lemma eq_junction_dim_ok:
  assumes "var_index (Suc s) dm D < R" "k + 2 \<le> Cn"
  shows "steps_to (eq_at R Cn k) (eq_junction_dim t s dm) (eq_at R Cn (Suc (Suc k)))"
  unfolding eq_junction_dim_def Let_def
  apply (rule steps_to_do_all_Cons, (rule eq_stmts; (insert assms, simp add: var_index_def idx)))+
  apply (rule steps_to_do_all_Nil)
  done

lemma eq_initial_dim_ok:
  assumes "var_index 0 dm D < R" "k + 2 \<le> Cn"
  shows "steps_to (eq_at R Cn k) (eq_initial_dim dm) (eq_at R Cn (Suc (Suc k)))"
proof -
  have "steps_to (eq_at R Cn k) (\<lambda>st. eq_initial_dim dm st) (eq_at R Cn (Suc (Suc k)))"
    unfolding eq_initial_dim_def Let_def
    apply (rule steps_to_do_all_Cons, (rule eq_stmts; (insert assms, simp add: var_index_def idx)))+
    apply (rule steps_to_do_all_Nil)
    done
  then show ?thesis .
qed

lemma eq_final_rows_ok:
  assumes "last_spline + 3 < R" "k + 3 \<le> Cn" "vsize Ek = R" "vsize Fk = R"
  shows "steps_to (eq_at R Cn k)
           (eq_final_rows last_spline t Ek nde Fk ndf end_cog dm) (eq_at R Cn (Suc (Suc (Suc k))))"
proof -
  have "steps_to (eq_at R Cn k)
           (\<lambda>st. eq_final_rows last_spline t Ek nde Fk ndf end_cog dm st) (eq_at R Cn (Suc (Suc (Suc k))))"
    unfolding eq_final_rows_def
    apply (rule steps_to_do_all_Cons, (rule eq_stmts; (insert assms, simp add: idx)))+
    apply (rule steps_to_do_all_Nil)
    done
  then show ?thesis .
qed

lemma eq_final_dim_ok:
  assumes ne: "splines \<noteq> []" and K: "spline_id (last splines) < length splines"
    and R: "R = GetOptCoeffCount splines" and dm: "dm < 2" and k: "k + 3 \<le> Cn"
  shows "steps_to (eq_at R Cn k)
           (eq_final_dim splines start_p start_v end_cog R dm) (eq_at R Cn (Suc (Suc (Suc k))))"
proof -
  let ?K = "spline_id (last splines)"
  have b: "var_index ?K dm A + 3 < R"
    using K dm by (simp add: R GetOptCoeffCount_def var_index_def idx)
  have "eq_final_dim splines start_p start_v end_cog R dm =
        eq_final_rows (var_index ?K dm A) (cache_exponents 6 (duration (last splines)))
          \<lparr>elems = fst (E_by_prev splines ?K dm (at2 start_v dm)), vsize = R\<rparr>
          (snd (E_by_prev splines ?K dm (at2 start_v dm)))
          \<lparr>elems = fst (F_by_prev splines ?K dm (at2 start_v dm) (at2 start_p dm)), vsize = R\<rparr>
          (snd (F_by_prev splines ?K dm (at2 start_v dm) (at2 start_p dm)))
          end_cog dm"
    using ne K R
    by (intro ext) (simp add: eq_final_dim_def Let_def DescribeEByPrev_def DescribeFByPrev_def)
  then show ?thesis
    using eq_final_rows_ok[OF b k] by simp
qed

lemma eq_boundary_dim_ok:
  assumes ne: "splines \<noteq> []" and K: "spline_id (last splines) < length splines"
    and R: "R = GetOptCoeffCount splines" and dm: "dm < 2" and k: "k + 5 \<le> Cn"
  shows "steps_to (eq_at R Cn k)
           (eq_boundary_dim splines start_p start_v end_cog R dm) (eq_at R Cn (k + 5))"
proof -
  have 0: "var_index 0 dm D < R"
    using ne dm by (cases splines) (simp_all add: R GetOptCoeffCount_def var_index_def idx)
  have "steps_to (eq_at R Cn k)
         (\<lambda>st. bindE (eq_initial_dim dm st) (eq_final_dim splines start_p start_v end_cog R dm))
         (eq_at R Cn (Suc (Suc (Suc (Suc (Suc k))))))"
  proof (rule steps_to_bindE)
    show "steps_to (eq_at R Cn k) (eq_initial_dim dm) (eq_at R Cn (Suc (Suc k)))"
      using k by (intro eq_initial_dim_ok[OF 0]) simp
    show "steps_to (eq_at R Cn (Suc (Suc k))) (eq_final_dim splines start_p start_v end_cog R dm)
            (eq_at R Cn (Suc (Suc (Suc (Suc (Suc k))))))"
      using k by (intro eq_final_dim_ok[OF ne K R dm]) simp
  qed
  moreover have "k + 5 = Suc (Suc (Suc (Suc (Suc k))))" by simp
  ultimately show ?thesis
    unfolding eq_boundary_dim_def by (simp only:)
qed

lemma eq_boundary_loop_ok:
  assumes ne: "splines \<noteq> []" and K: "spline_id (last splines) < length splines"
    and R: "R = GetOptCoeffCount splines" and k: "10 \<le> Cn"
  shows "steps_to (eq_at R Cn 0)
           (foldE (eq_boundary_dim splines start_p start_v end_cog R) [X..<Suc Y]) (eq_at R Cn 10)"
  unfolding dims_XY
proof (rule steps_to_foldE_Cons, rule_tac [2] steps_to_foldE_Cons, rule_tac [3] steps_to_foldE_Nil)
  show "steps_to (eq_at R Cn 0) (eq_boundary_dim splines start_p start_v end_cog R 0) (eq_at R Cn (0 + 5))"
    using k by (intro eq_boundary_dim_ok[OF ne K R]) simp_all
  show "steps_to (eq_at R Cn (0 + 5)) (eq_boundary_dim splines start_p start_v end_cog R (Suc 0)) (eq_at R Cn 10)"
    using k eq_boundary_dim_ok[OF ne K R, of "Suc 0" 5 Cn] by simp
qed

lemma eq_junction_ok:
  assumes s: "Suc s < length splines" and R: "R = GetOptCoeffCount splines" and k: "k + 4 \<le> Cn"
  shows "steps_to (eq_at R Cn k) (eq_junction splines s) (eq_at R Cn (k + 4))"
proof -
  let ?t = "cache_exponents 6 (duration (splines ! s))"
  have b: "var_index (Suc s) dm D < R" if "dm < 2" for dm
    using s that by (simp add: R GetOptCoeffCount_def var_index_def idx)
  have "steps_to (eq_at R Cn k) (foldE (eq_junction_dim ?t s) [0, Suc 0]) (eq_at R Cn (Suc (Suc (Suc (Suc k)))))"
  proof (rule steps_to_foldE_Cons, rule_tac [2] steps_to_foldE_Cons, rule_tac [3] steps_to_foldE_Nil)
    show "steps_to (eq_at R Cn k) (eq_junction_dim ?t s 0) (eq_at R Cn (Suc (Suc k)))"
      using k by (intro eq_junction_dim_ok b) simp_all
    show "steps_to (eq_at R Cn (Suc (Suc k))) (eq_junction_dim ?t s (Suc 0)) (eq_at R Cn (Suc (Suc (Suc (Suc k)))))"
      using k by (intro eq_junction_dim_ok b) simp_all
  qed
  moreover have "eq_junction splines s = foldE (eq_junction_dim ?t s) [0, Suc 0]"
    using s by (intro ext) (simp add: eq_junction_def dims_XY del: upt_Suc)
  moreover have "k + 4 = Suc (Suc (Suc (Suc k)))" by simp
  ultimately show ?thesis by (simp only:)
qed

lemma eq_junction_loop_ok:
  assumes R: "R = GetOptCoeffCount splines" and m: "Suc m \<le> length splines" and k: "k + 4 * m \<le> Cn"
  shows "steps_to (eq_at R Cn k) (foldE (eq_junction splines) [0..<m]) (eq_at R Cn (k + 4 * m))"
  using m k
proof (induction m)
  case 0
  show ?case by (simp add: steps_to_def)
next
  case (Suc m)
  have "steps_to (eq_at R Cn k) (foldE (eq_junction splines) ([0..<m] @ [m])) (eq_at R Cn (k + 4 * m + 4))"
  proof (rule steps_to_foldE_snoc)
    show "steps_to (eq_at R Cn k) (foldE (eq_junction splines) [0..<m]) (eq_at R Cn (k + 4 * m))"
      using Suc by simp
    show "steps_to (eq_at R Cn (k + 4 * m)) (eq_junction splines m) (eq_at R Cn (k + 4 * m + 4))"
      using Suc.prems by (intro eq_junction_ok R) simp_all
  qed
  moreover have "k + 4 * m + 4 = k + 4 * Suc m" by simp
  ultimately show ?case by (simp only: upt_Suc_append[OF le0])
qed

lemma n_constraints_nonempty:
  "splines \<noteq> [] \<Longrightarrow> n_constraints splines = 10 + 4 * (length splines - 1)"
  by (cases splines) (simp_all add: n_constraints_def idx nat_add_distrib nat_mult_distrib)

lemma CreateEqualityContraints_ok:
  assumes ne: "splines \<noteq> []" and K: "spline_id (last splines) < length splines"
  shows "\<exists>ec. CreateEqualityContraints splines start_p start_v end_cog = Inr ec \<and>
           dims_ok (GetOptCoeffCount splines) (10 + 4 * (length splines - 1)) ec"
proof -
  let ?R = "GetOptCoeffCount splines" and ?Cn = "10 + 4 * (length splines - 1)"
  have init: "eq_at ?R ?Cn 0 (MatVec_new ?R ?Cn, 0)"
    by (simp add: eq_at_def dims_ok_def)
  obtain st1 where 1: "foldE (eq_boundary_dim splines start_p start_v end_cog ?R) [X..<Suc Y]
        (MatVec_new ?R ?Cn, 0) = Inr st1" "eq_at ?R ?Cn 10 st1"
  proof -
    have "10 \<le> ?Cn" by simp
    from steps_toD[OF eq_boundary_loop_ok[OF ne K refl this, of start_p start_v end_cog] init]
    show ?thesis using that by blast
  qed
  have "Suc (length splines - 1) \<le> length splines" using ne by (cases splines) simp_all
  then have "steps_to (eq_at ?R ?Cn 10) (foldE (eq_junction splines) [0..<length splines - 1])
      (eq_at ?R ?Cn ?Cn)"
    by (intro eq_junction_loop_ok) simp_all
  from steps_toD[OF this 1(2)]
  obtain st2 where 2: "foldE (eq_junction splines) [0..<length splines - 1] st1 = Inr st2"
      "eq_at ?R ?Cn ?Cn st2"
    by blast
  show ?thesis
    using 1 2 n_constraints_nonempty[OF ne]
    by (auto simp: CreateEqualityContraints_def Let_def eq_at_def simp del: upt_Suc)
qed

text \<open>
  Claim C1, as the code has it.  For a non-empty spline sequence of \<open>n\<close> segments whose last
  id lies inside the sequence, the equality builder returns a \<open>MatVec\<close> with one row per
  free coefficient and \<open>2\<cdot>2 + 3\<cdot>2 + 2\<cdot>2\<cdot>(n - 1)\<close> constraints: four initial ones
  (acceleration and jerk on two axes), six final ones, and four per junction.
\<close>

theorem equality_constraint_count:
  assumes "splines \<noteq> []" and "spline_id (last splines) < length splines"
  shows "\<exists>ec. CreateEqualityContraints splines start_cog_p start_cog_v end_cog = Inr ec \<and>
           cols (M ec) = 2 * 2 + 3 * 2 + 2 * 2 * (length splines - 1) \<and>
           vsize (v ec) = 2 * 2 + 3 * 2 + 2 * 2 * (length splines - 1) \<and>
           rows (M ec) = GetOptCoeffCount splines"
  using CreateEqualityContraints_ok[OF assms, of start_cog_p start_cog_v end_cog]
  by (auto simp: dims_ok_def)

theorem equality_constraint_count_witness:
  "[\<lparr>spline_id = 0, duration = 1, four_leg_supp = True, step = 0\<rparr>,
    \<lparr>spline_id = 1, duration = 1, four_leg_supp = False, step = 0\<rparr>] \<noteq> [] \<and>
   (\<exists>ec. CreateEqualityContraints
           [\<lparr>spline_id = 0, duration = 1, four_leg_supp = True, step = 0\<rparr>,
            \<lparr>spline_id = 1, duration = 1, four_leg_supp = False, step = 0\<rparr>]
           (0, 0) (0, 0) (1 / 5, 0) = Inr ec \<and>
         cols (M ec) = 14 \<and> vsize (v ec) = 14 \<and> rows (M ec) = 16)"
  using equality_constraint_count
          [of "[\<lparr>spline_id = 0, duration = 1, four_leg_supp = True, step = 0\<rparr>,
                \<lparr>spline_id = 1, duration = 1, four_leg_supp = False, step = 0\<rparr>]"
              "(0, 0)" "(0, 0)" "(1 / 5, 0)"]
  by (simp add: GetOptCoeffCount_def idx)

text \<open>The count of the claim as stated, \<open>4\<cdot>2 + 3\<cdot>2 + 2\<cdot>2\<cdot>(n - 1)\<close>, is not what the builder
  allocates: a single segment gives ten constraints, not fourteen.\<close>

theorem equality_constraint_count_counterexample:
  "\<not> isl (CreateEqualityContraints
            [\<lparr>spline_id = 0, duration = 1, four_leg_supp = False, step = 0\<rparr>] (0, 0) (0, 0) (0, 0)) \<and>
   cols (M (projr (CreateEqualityContraints
            [\<lparr>spline_id = 0, duration = 1, four_leg_supp = False, step = 0\<rparr>] (0, 0) (0, 0) (0, 0))))
     \<noteq> 4 * 2 + 3 * 2 + 2 * 2 * (length [\<lparr>spline_id = 0, duration = 1, four_leg_supp = False, step = 0\<rparr>] - 1)"
  using CreateEqualityContraints_ok
          [of "[\<lparr>spline_id = 0, duration = 1, four_leg_supp = False, step = 0\<rparr>]" "(0, 0)" "(0, 0)" "(0, 0)"]
  by (auto simp: dims_ok_def)

section \<open>Properties of the inequality constraints\<close>

text \<open>The loop over the samples ends: a sample that returns has advanced \<open>c\<close> by three
  inside the list of edges.\<close>

lemma stmt_Inr: "stmt f s = Inr s' \<longleftrightarrow> f s = Inr s'"
  by (simp add: stmt_def split: sum.splits)

lemma on_ipopt_c: "on_ipopt f st = Inr st' \<Longrightarrow> l_c st' = l_c st"
  by (auto simp: on_ipopt_def split: sum.splits)

lemma on_vx_c: "on_vx f st = Inr st' \<Longrightarrow> l_c st' = l_c st"
  by (auto simp: on_vx_def split: sum.splits)

lemma on_vy_c: "on_vy f st = Inr st' \<Longrightarrow> l_c st' = l_c st"
  by (auto simp: on_vy_def split: sum.splits)

lemma on_ineq_c: "on_ineq f st = Inr st' \<Longrightarrow> l_c st' = l_c st"
  by (auto simp: on_ineq_def split: sum.splits)

lemma bindE_Inr_iff: "bindE m f = Inr y \<longleftrightarrow> (\<exists>x. m = Inr x \<and> f x = Inr y)"
  by (cases m) simp_all

lemma ineq_edge_dim_c: "ineq_edge_dim k h t Ekx Fkx Eky Fky dm st = Inr st' \<Longrightarrow> l_c st' = l_c st"
  by (auto simp: ineq_edge_dim_def Let_def bindE_Inr_iff stmt_Inr dest!: on_ipopt_c)

lemma ineq_edge_row_c:
  "ineq_edge_row splines l t ndex ndfx ndey ndfy st = Inr st' \<Longrightarrow> l_c st' = Suc (l_c st)"
  by (auto simp: ineq_edge_row_def stmt_Inr bindE_Inr_iff
           dest!: on_ipopt_c on_vx_c on_vy_c on_ineq_c)

lemma ineq_edge_c:
  assumes "ineq_edge splines lines k h t e_x f_x e_y f_y j st = Inr st'"
  shows "l_c st < length lines \<and> l_c st' = Suc (l_c st)"
proof -
  obtain Ekx ndex Fkx ndfx Eky ndey Fky ndfy where
    e: "e_x = (Ekx, ndex)" "f_x = (Fkx, ndfx)" "e_y = (Eky, ndey)" "f_y = (Fky, ndfy)"
    by (cases e_x, cases f_x, cases e_y, cases f_y) auto
  from assms show ?thesis
    by (auto simp: ineq_edge_def e Let_def bindE_Inr_iff dims_XY
             simp del: upt_Suc dest!: ineq_edge_dim_c ineq_edge_row_c split: if_splits)
qed

lemma ineq_sample_c:
  assumes "ineq_sample splines lines k h dt e_x f_x e_y f_y i st = Inr st'"
  shows "l_c st < length lines \<and> l_c st' = l_c st + 3"
proof -
  have u: "[0..<3] = [0, Suc 0, Suc (Suc 0)]" by (simp add: upt_rec)
  from assms show ?thesis
    by (auto simp: ineq_sample_def Let_def u bindE_Inr_iff dest!: ineq_edge_c)
qed

termination sample_loop
proof (relation "measure (\<lambda>(splines, lines, k, h, dt, e_x, f_x, e_y, f_y, bound, i, st).
                    Suc (length lines) - l_c st)")
  show "wf (measure (\<lambda>(splines, lines, k, h, dt, e_x, f_x, e_y, f_y, bound, i, st).
                    Suc (length (lines :: TrLine list)) - l_c (st :: ineq_state)))"
    by simp
next
  fix splines :: "ZmpSpline list" and lines :: "TrLine list" and k :: nat and h dt :: real
    and e_x f_x e_y f_y :: "VectorXd \<times> real" and bound :: double and i :: nat
    and st st' :: ineq_state
  assume "ineq_sample splines lines k h dt e_x f_x e_y f_y i st = Inr st'"
  from ineq_sample_c[OF this]
  show "((splines, lines, k, h, dt, e_x, f_x, e_y, f_y, bound, Suc i, st'),
         (splines, lines, k, h, dt, e_x, f_x, e_y, f_y, bound, i, st))
        \<in> measure (\<lambda>(splines, lines, k, h, dt, e_x, f_x, e_y, f_y, bound, i, st).
                    Suc (length lines) - l_c st)"
    by auto
qed

declare sample_loop.simps [simp del]

lemma sample_loop_finite:
  "i \<le> nat n \<Longrightarrow>
   sample_loop splines lines k h dt e_x f_x e_y f_y (Finite (of_int n)) i st
     = foldE (ineq_sample splines lines k h dt e_x f_x e_y f_y) [i..<nat n] st"
proof (induction "nat n - i" arbitrary: i st)
  case 0
  then have "\<not> real i < of_int n" by linarith
  then show ?case using 0 by (subst sample_loop.simps) simp
next
  case (Suc d)
  then have lt: "i < nat n" by simp
  then have "real i < of_int n" by linarith
  moreover have "[i..<nat n] = i # [Suc i..<nat n]" using lt by (simp add: upt_conv_Cons)
  moreover have "sample_loop splines lines k h dt e_x f_x e_y f_y (Finite (of_int n)) (Suc i) st'
     = foldE (ineq_sample splines lines k h dt e_x f_x e_y f_y) [Suc i..<nat n] st'" for st'
    using Suc by (intro Suc.hyps(1)) simp_all
  ultimately show ?case
    by (subst sample_loop.simps) (simp add: bindE_def split: sum.splits)
qed

lemma sample_loop_infinite_throws:
  "\<exists>e st'. sample_loop splines lines k h dt e_x f_x e_y f_y PlusInfinity i st = Inl (e, st')"
proof (induction "Suc (length lines) - l_c st" arbitrary: i st rule: less_induct)
  case less
  show ?case
  proof (cases "ineq_sample splines lines k h dt e_x f_x e_y f_y i st")
    case (Inl a)
    then show ?thesis by (subst sample_loop.simps) (cases a, simp)
  next
    case (Inr st1)
    from ineq_sample_c[OF Inr] have "Suc (length lines) - l_c st1 < Suc (length lines) - l_c st"
      by auto
    from less[OF this, of "Suc i"] Inr show ?thesis
      by (subst sample_loop.simps) simp
  qed
qed

lemma ineq_sample_eq:
  "ineq_sample splines lines k h dt e_x f_x e_y f_y =
     (\<lambda>i. (let time = real i * dt;
               t = cache_exponents 6 time
           in foldE (ineq_edge splines lines k h t e_x f_x e_y f_y) [0..<3]))"
  by (intro ext) (simp add: ineq_sample_def Let_def del: upt_Suc)

lemma sample_loop_fold:
  assumes "finite_quotient a dt"
  shows "sample_loop splines lines k h dt e_x f_x e_y f_y (double_floor (double_div a dt)) 0 st
     = foldE (\<lambda>i. (let time = real i * dt;
                       t = cache_exponents 6 time
                   in foldE (ineq_edge splines lines k h t e_x f_x e_y f_y) [0..<3]))
         [0..<nat (floor_quotient a dt)] st"
  using assms sample_loop_finite[of 0 "floor_quotient a dt"]
  by (simp add: finite_quotient_def ineq_sample_eq del: upt_Suc)

lemma length_push3:
  "length (fold (\<lambda>i acc. acc @ [a, b, c]) [0..<n] acc) = length acc + 3 * n"
  by (induction n) simp_all

lemma LineForConstraint_loop:
  assumes "\<forall>s\<in>set xs. \<not> four_leg_supp s \<longrightarrow> step s < length tris"
    and "\<forall>s\<in>set xs. \<not> four_leg_supp s \<longrightarrow> int_quotient (duration s) dt"
  shows "\<exists>lines. foldE (\<lambda>s line_for_constraint.
        if four_leg_supp s then Inr line_for_constraint
        else
          (case double_to_int (double_floor (double_div (duration s) dt)) of
             None \<Rightarrow> Inl undefined_conversion
           | Some n_nodes \<Rightarrow>
              if step s < length tris
              then (case CalcLines (tris ! step s) of (lines0, lines1, lines2) \<Rightarrow>
                     Inr (fold (\<lambda>i acc. acc @ [lines0, lines1, lines2]) [0..<nat n_nodes]
                            line_for_constraint))
              else Inl out_of_range)) xs acc = Inr lines \<and>
       length lines = length acc + 3 * (\<Sum>s\<leftarrow>xs. n_samples dt s)"
  using assms
proof (induction xs arbitrary: acc)
  case Nil
  then show ?case by simp
next
  case (Cons s xs)
  show ?case
  proof (cases "four_leg_supp s")
    case True
    then show ?thesis using Cons.IH[of acc] Cons.prems by (simp add: n_samples_def)
  next
    case False
    obtain l0 l1 l2 where l: "CalcLines (tris ! step s) = (l0, l1, l2)"
      by (cases "CalcLines (tris ! step s)") auto
    have n: "double_to_int (double_floor (double_div (duration s) dt))
               = Some (floor_quotient (duration s) dt)"
      using Cons.prems(2) False by (simp add: int_quotient_def)
    let ?acc = "fold (\<lambda>i acc. acc @ [l0, l1, l2]) [0..<nat (floor_quotient (duration s) dt)] acc"
    from Cons.IH[of ?acc] Cons.prems False
    show ?thesis
      by (auto simp: l n n_samples_def length_push3 Let_def)
  qed
qed

lemma LineForConstraint_length:
  assumes "\<forall>s\<in>set splines. \<not> four_leg_supp s \<longrightarrow> step s < length tris"
    and "\<forall>s\<in>set splines. \<not> four_leg_supp s \<longrightarrow> int_quotient (duration s) dt"
  shows "\<exists>lines. LineForConstraint CalcLines splines tris dt = Inr lines \<and>
           length lines = 3 * (\<Sum>s\<leftarrow>splines. n_samples dt s)"
  using LineForConstraint_loop[OF assms, of CalcLines "[]"]
  by (simp add: LineForConstraint_def)

lemma GetXy_loop:
  assumes "\<forall>s\<in>set xs. 8 * spline_id s + 8 \<le> vsize vec"
  shows "\<exists>vec'. foldE (\<lambda>s vec.
          bindE (fill_middleRows (var_index (spline_id s) X A) kOptCoeff x vec)
            (fill_middleRows (var_index (spline_id s) Y A) kOptCoeff y)) xs vec = Inr vec' \<and>
          vsize vec' = vsize vec"
  using assms
proof (induction xs arbitrary: vec)
  case Nil
  then show ?case by simp
next
  case (Cons s xs)
  let ?v1 = "vec\<lparr>elems := \<lambda>i. if var_index (spline_id s) X A \<le> i \<and> i < var_index (spline_id s) X A + kOptCoeff
                                then x else elems vec i\<rparr>"
  let ?v2 = "?v1\<lparr>elems := \<lambda>i. if var_index (spline_id s) Y A \<le> i \<and> i < var_index (spline_id s) Y A + kOptCoeff
                                then y else elems ?v1 i\<rparr>"
  have b: "var_index (spline_id s) X A + kOptCoeff \<le> vsize vec"
      "var_index (spline_id s) Y A + kOptCoeff \<le> vsize vec"
    using Cons.prems by (simp_all add: var_index_def idx)
  have 1: "fill_middleRows (var_index (spline_id s) X A) kOptCoeff x vec = Inr ?v1"
    using b(1) unfolding fill_middleRows_def by (simp only: if_True)
  have 2: "fill_middleRows (var_index (spline_id s) Y A) kOptCoeff y ?v1 = Inr ?v2"
    using b(2) unfolding fill_middleRows_def by simp
  have "\<forall>s\<in>set xs. 8 * spline_id s + 8 \<le> vsize ?v2" using Cons.prems by simp
  from Cons.IH[OF this] show ?case
    by (simp add: 1 2)
qed

lemma GetXyDimAlternatingVector_ok:
  assumes "\<forall>s\<in>set splines. spline_id s < length splines"
  shows "\<exists>vec. GetXyDimAlternatingVector splines x y = Inr vec \<and>
           vsize vec = GetOptCoeffCount splines"
proof -
  have "\<forall>s\<in>set splines. 8 * spline_id s + 8 \<le> vsize (VectorXd_Zero (length splines * kOptCoeff * kDim2d))"
    using assms by (auto simp: VectorXd_Zero_def idx)
  from GetXy_loop[OF this, of x y] show ?thesis
    by (simp add: GetXyDimAlternatingVector_def Let_def GetOptCoeffCount_def VectorXd_Zero_def)
qed

lemma ineq_edge_row_ok:
  assumes ids: "\<forall>s\<in>set splines. spline_id s < length splines"
    and R: "R = GetOptCoeffCount splines" and k: "k < Cn"
  shows "steps_to (ineq_at R Cn k) (ineq_edge_row splines l t ndex ndfx ndey ndfy)
           (ineq_at R Cn (Suc k))"
proof -
  obtain lc where lc: "GetXyDimAlternatingVector splines (p (coeff l)) (q (coeff l)) = Inr lc"
      "vsize lc = R"
    using GetXyDimAlternatingVector_ok[OF ids] R by blast
  show ?thesis
    unfolding steps_to_def ineq_edge_row_def
    using k
    by (auto simp: ineq_at_def dims_ok_def lc stmt_def on_ineq_def on_vx_def on_vy_def
        get_col_def cwiseProduct_def inM_def inV_def set_col_def set_elem_def get_elem_def add_elem_def)
qed

lemma ineq_edge_dim_ok:
  assumes "var_index ki dm D < R" "k < Cn" "vsize Ekx = R" "vsize Fkx = R" "vsize Eky = R" "vsize Fky = R"
  shows "steps_to (ineq_at R Cn k) (ineq_edge_dim ki h t Ekx Fkx Eky Fky dm) (ineq_at R Cn k)"
  unfolding steps_to_def ineq_edge_dim_def Let_def
  using assms
  by (auto simp: ineq_at_def dims_ok_def stmt_def on_ipopt_def set_coeff_def add_col_def
        var_index_def idx)

lemma ineq_edge_ok:
  assumes ids: "\<forall>s\<in>set splines. spline_id s < length splines"
    and R: "R = GetOptCoeffCount splines" and k: "k < Cn" and Cn: "Cn = length lines"
    and ki: "ki < length splines"
    and sz: "vsize Ekx = R" "vsize Fkx = R" "vsize Eky = R" "vsize Fky = R"
  shows "steps_to (ineq_at R Cn k)
           (ineq_edge splines lines ki h t (Ekx, ndex) (Fkx, ndfx) (Eky, ndey) (Fky, ndfy) j)
           (ineq_at R Cn (Suc k))"
proof -
  have b: "var_index ki dm D < R" if "dm < 2" for dm
    using ki that by (simp add: R GetOptCoeffCount_def var_index_def idx)
  have dims: "steps_to (ineq_at R Cn k) (foldE (ineq_edge_dim ki h t Ekx Fkx Eky Fky) [0, Suc 0])
                (ineq_at R Cn k)"
    apply (rule steps_to_foldE_Cons, (rule ineq_edge_dim_ok[OF b k sz], simp))+
    apply (rule steps_to_foldE_Nil)
    done
  have "steps_to (ineq_at R Cn k)
          (\<lambda>st. bindE (foldE (ineq_edge_dim ki h t Ekx Fkx Eky Fky) [0, Suc 0] st)
                  (ineq_edge_row splines (lines ! k) t ndex ndfx ndey ndfy))
          (ineq_at R Cn (Suc k))"
    by (rule steps_to_bindE[OF dims ineq_edge_row_ok[OF ids R k]])
  then show ?thesis
    unfolding steps_to_def
    using k Cn by (auto simp: ineq_edge_def dims_XY ineq_at_def simp del: upt_Suc)
qed

lemma ineq_edges_ok:
  assumes ids: "\<forall>s\<in>set splines. spline_id s < length splines"
    and R: "R = GetOptCoeffCount splines" and k: "k + 3 \<le> Cn" and Cn: "Cn = length lines"
    and ki: "ki < length splines"
    and sz: "vsize Ekx = R" "vsize Fkx = R" "vsize Eky = R" "vsize Fky = R"
  shows "steps_to (ineq_at R Cn k)
           (foldE (ineq_edge splines lines ki h t (Ekx, ndex) (Fkx, ndfx) (Eky, ndey) (Fky, ndfy)) [0..<3])
           (ineq_at R Cn (k + 3))"
proof -
  have u: "[0..<3] = [0, Suc 0, Suc (Suc 0)]" by (simp add: upt_rec)
  have e: "k + 3 = Suc (Suc (Suc k))" by simp
  show ?thesis
    unfolding u e
    apply (rule steps_to_foldE_Cons, (rule ineq_edge_ok[OF ids R _ Cn ki sz], (insert k, simp)[1]))+
    apply (rule steps_to_foldE_Nil)
    done
qed

lemma ineq_samples_ok:
  assumes ids: "\<forall>s\<in>set splines. spline_id s < length splines"
    and R: "R = GetOptCoeffCount splines" and k: "k + 3 * N \<le> Cn" and Cn: "Cn = length lines"
    and ki: "ki < length splines"
    and sz: "vsize Ekx = R" "vsize Fkx = R" "vsize Eky = R" "vsize Fky = R"
  shows "steps_to (ineq_at R Cn k)
           (foldE (\<lambda>i.
             (let time = real i * dt;
                  t = cache_exponents 6 time
              in foldE (ineq_edge splines lines ki h t (Ekx, ndex) (Fkx, ndfx) (Eky, ndey) (Fky, ndfy)) [0..<3]))
            [0..<N])
           (ineq_at R Cn (k + 3 * N))"
  using k
proof (induction N)
  case 0
  show ?case by (simp add: steps_to_def)
next
  case (Suc N)
  have e: "k + 3 * Suc N = k + 3 * N + 3" by simp
  show ?case
    unfolding upt_Suc_append[OF le0] e
  proof (rule steps_to_foldE_snoc)
    show "steps_to (ineq_at R Cn k)
           (foldE (\<lambda>i.
             (let time = real i * dt;
                  t = cache_exponents 6 time
              in foldE (ineq_edge splines lines ki h t (Ekx, ndex) (Fkx, ndfx) (Eky, ndey) (Fky, ndfy)) [0..<3]))
            [0..<N])
           (ineq_at R Cn (k + 3 * N))"
      using Suc by simp
    show "steps_to (ineq_at R Cn (k + 3 * N))
       (let time = real N * dt; t = cache_exponents 6 time
        in foldE (ineq_edge splines lines ki h t (Ekx, ndex) (Fkx, ndfx) (Eky, ndey) (Fky, ndfy)) [0..<3])
       (ineq_at R Cn (k + 3 * N + 3))"
      unfolding Let_def
      using Suc.prems by (intro ineq_edges_ok[OF ids R _ Cn ki sz]) simp
  qed
qed

lemma ineq_spline_ok:
  assumes ids: "\<forall>s\<in>set splines. spline_id s < length splines"
    and R: "R = GetOptCoeffCount splines" and k: "k + 3 * n_samples dt s \<le> Cn"
    and Cn: "Cn = length lines" and s: "s \<in> set splines"
    and fin: "\<not> four_leg_supp s \<longrightarrow> finite_quotient (duration s) dt"
  shows "steps_to (ineq_at R Cn k)
           (ineq_spline splines start_p start_v lines h dt R s)
           (ineq_at R Cn (k + 3 * n_samples dt s))"
proof (cases "four_leg_supp s")
  case True
  then show ?thesis
    by (simp add: steps_to_def ineq_spline_def n_samples_def)
next
  case False
  let ?k = "spline_id s"
  have ki: "?k < length splines" using ids s by simp
  let ?ex = "DescribeEByPrev splines ?k X (at2 start_v X) R"
  have N: "n_samples dt s = nat (floor_quotient (duration s) dt)" using False by (simp add: n_samples_def)
  have fq: "finite_quotient (duration s) dt" using fin False by simp
  note loop = ineq_samples_ok[OF ids R k[unfolded N] Cn ki, where dt = dt and h = h]
  have "ineq_spline splines start_p start_v lines h dt R s =
     foldE (\<lambda>i.
             (let time = real i * dt;
                  t = cache_exponents 6 time
              in foldE (ineq_edge splines lines ?k h t
                   (\<lparr>elems = fst (E_by_prev splines ?k X (at2 start_v X)), vsize = R\<rparr>,
                      snd (E_by_prev splines ?k X (at2 start_v X)))
                   (\<lparr>elems = fst (F_by_prev splines ?k X (at2 start_v X) (at2 start_p X)), vsize = R\<rparr>,
                      snd (F_by_prev splines ?k X (at2 start_v X) (at2 start_p X)))
                   (\<lparr>elems = fst (E_by_prev splines ?k Y (at2 start_v Y)), vsize = R\<rparr>,
                      snd (E_by_prev splines ?k Y (at2 start_v Y)))
                   (\<lparr>elems = fst (F_by_prev splines ?k Y (at2 start_v Y) (at2 start_p Y)), vsize = R\<rparr>,
                      snd (F_by_prev splines ?k Y (at2 start_v Y) (at2 start_p Y)))) [0..<3]))
            [0..<nat (floor_quotient (duration s) dt)]"
    using False ki R
    by (intro ext) (simp add: ineq_spline_def Let_def throwing_def DescribeEByPrev_def DescribeFByPrev_def
         sample_loop_fold[OF fq] del: upt_Suc)
  then show ?thesis
    unfolding N using loop by simp
qed

lemma ineq_loop_ok:
  assumes ids: "\<forall>s\<in>set splines. spline_id s < length splines"
    and R: "R = GetOptCoeffCount splines" and Cn: "Cn = length lines"
    and xs: "set xs \<subseteq> set splines" and k: "k + 3 * (\<Sum>s\<leftarrow>xs. n_samples dt s) \<le> Cn"
    and fin: "\<forall>s\<in>set xs. \<not> four_leg_supp s \<longrightarrow> finite_quotient (duration s) dt"
  shows "steps_to (ineq_at R Cn k)
           (foldE (ineq_spline splines start_p start_v lines h dt R) xs)
           (ineq_at R Cn (k + 3 * (\<Sum>s\<leftarrow>xs. n_samples dt s)))"
  using xs k fin
proof (induction xs arbitrary: k)
  case Nil
  show ?case by (simp add: steps_to_def)
next
  case (Cons s xs)
  have e: "k + 3 * (\<Sum>s\<leftarrow>s # xs. n_samples dt s)
         = k + 3 * n_samples dt s + 3 * (\<Sum>s\<leftarrow>xs. n_samples dt s)"
    by simp
  show ?case
    unfolding e
  proof (rule steps_to_foldE_Cons)
    show "steps_to (ineq_at R Cn k) (ineq_spline splines start_p start_v lines h dt R s)
            (ineq_at R Cn (k + 3 * n_samples dt s))"
      using Cons.prems by (intro ineq_spline_ok[OF ids R _ Cn]) simp_all
    show "steps_to (ineq_at R Cn (k + 3 * n_samples dt s))
            (foldE (ineq_spline splines start_p start_v lines h dt R) xs)
            (ineq_at R Cn (k + 3 * n_samples dt s + 3 * (\<Sum>s\<leftarrow>xs. n_samples dt s)))"
      using Cons.prems by (intro Cons.IH) simp_all
  qed
qed

lemma CreateInequalityContraints_ok:
  assumes ids: "\<forall>s\<in>set splines. spline_id s < length splines"
    and len: "length lines = 3 * (\<Sum>s\<leftarrow>splines. n_samples dt s)"
    and fin: "\<forall>s\<in>set splines. \<not> four_leg_supp s \<longrightarrow> finite_quotient (duration s) dt"
  shows "\<exists>st. CreateInequalityContraints splines start_p start_v lines h dt = Inr st \<and>
           ineq_at (GetOptCoeffCount splines) (length lines) (length lines) st"
proof -
  let ?R = "GetOptCoeffCount splines" and ?Cn = "length lines"
  let ?st0 = "\<lparr>l_ineq = MatVec_new ?R ?Cn, l_ineq_ipopt = M (MatVec_new ?R ?Cn),
              l_ineq_ipopt_vx = v (MatVec_new ?R ?Cn), l_ineq_ipopt_vy = v (MatVec_new ?R ?Cn),
              l_c = 0\<rparr>"
  have init: "ineq_at ?R ?Cn 0 ?st0"
    by (simp add: ineq_at_def dims_ok_def)
  have "steps_to (ineq_at ?R ?Cn 0)
           (foldE (ineq_spline splines start_p start_v lines h dt ?R) splines)
           (ineq_at ?R ?Cn (0 + 3 * (\<Sum>s\<leftarrow>splines. n_samples dt s)))"
    using len fin by (intro ineq_loop_ok[OF ids refl refl]) simp_all
  from steps_toD[OF this init] show ?thesis
    by (simp add: CreateInequalityContraints_def Let_def len)
qed

text \<open>Outside these conditions the builders do not return.  With \<open>dt = 0\<close> the quotient of a
  positive duration is infinite: the conversion to the node count is undefined, and the
  loop over the samples runs until \<open>at\<close> throws.  A quotient of \<open>2\<^sup>3\<^sup>1\<close> does not fit the node
  count.\<close>

lemma zero_interval_has_no_node_count:
  "LineForConstraint same_edges
     [\<lparr>spline_id = 0, duration = 1 / 2, four_leg_supp = False, step = 0\<rparr>] [edge_x] 0
   = Inl undefined_conversion"
  by (simp add: LineForConstraint_def double_div_def)

lemma node_count_overflows:
  "LineForConstraint same_edges
     [\<lparr>spline_id = 0, duration = 2 ^ 31, four_leg_supp = False, step = 0\<rparr>] [edge_x] 1
   = Inl undefined_conversion"
  by (simp add: LineForConstraint_def double_eval)

lemma zero_interval_throws:
  "\<exists>st. CreateInequalityContraints
          [\<lparr>spline_id = 0, duration = 1 / 2, four_leg_supp = False, step = 0\<rparr>]
          (0, 0) (0, 0) [] (1 / 2) 0 = Inl (out_of_range, st)"
  by (simp add: CreateInequalityContraints_def ineq_spline_def throwing_def DescribeEByPrev_def
        DescribeFByPrev_def GetOptCoeffCount_def idx double_div_def sample_loop.simps
        ineq_sample_def ineq_edge_def Let_def upt_rec split: prod.splits)

lemma n_samples_sum:
  assumes "\<forall>s\<in>set splines. \<not> four_leg_supp s \<longrightarrow> 0 \<le> floor_quotient (duration s) dt"
  shows "int (\<Sum>s\<leftarrow>splines. n_samples dt s)
       = (\<Sum>s\<leftarrow>filter (\<lambda>s. \<not> four_leg_supp s) splines. floor_quotient (duration s) dt)"
  using assms by (induction splines) (simp_all add: n_samples_def)

lemma inequality_rows_built:
  assumes ids: "\<forall>s\<in>set splines. spline_id s < length splines"
    and tri: "\<forall>s\<in>set splines. \<not> four_leg_supp s \<longrightarrow> step s < length supp_triangles"
    and fit: "\<forall>s\<in>set splines. \<not> four_leg_supp s \<longrightarrow>
                finite_quotient (duration s) dt \<and> int_quotient (duration s) dt \<and>
                0 \<le> floor_quotient (duration s) dt"
  shows "\<exists>lines st.
           LineForConstraint CalcLines splines supp_triangles dt = Inr lines \<and>
           CreateInequalityContraints splines start_cog_p start_cog_v lines h dt = Inr st \<and>
           int (cols (M (l_ineq st))) =
             3 * (\<Sum>s\<leftarrow>filter (\<lambda>s. \<not> four_leg_supp s) splines. floor_quotient (duration s) dt) \<and>
           vsize (v (l_ineq st)) = cols (M (l_ineq st)) \<and>
           l_c st = cols (M (l_ineq st))"
proof -
  have f1: "\<forall>s\<in>set splines. \<not> four_leg_supp s \<longrightarrow> int_quotient (duration s) dt"
    and f2: "\<forall>s\<in>set splines. \<not> four_leg_supp s \<longrightarrow> finite_quotient (duration s) dt"
    and f3: "\<forall>s\<in>set splines. \<not> four_leg_supp s \<longrightarrow> 0 \<le> floor_quotient (duration s) dt"
    using fit by blast+
  obtain lines where l: "LineForConstraint CalcLines splines supp_triangles dt = Inr lines"
      "length lines = 3 * (\<Sum>s\<leftarrow>splines. n_samples dt s)"
    using LineForConstraint_length[OF tri f1] by blast
  obtain st where st: "CreateInequalityContraints splines start_cog_p start_cog_v lines h dt = Inr st"
      "ineq_at (GetOptCoeffCount splines) (length lines) (length lines) st"
    using CreateInequalityContraints_ok[OF ids l(2) f2] by blast
  have "int (length lines)
      = 3 * (\<Sum>s\<leftarrow>filter (\<lambda>s. \<not> four_leg_supp s) splines. floor_quotient (duration s) dt)"
    using n_samples_sum[OF f3] l(2) by simp
  then show ?thesis
    using l(1) st by (auto simp: ineq_at_def dims_ok_def)
qed

text \<open>
  Claim C2.  The number of rows is three times the sum, over the segments not flagged
  full-support, of the floor of the quotient \<open>duration / dt\<close> as the program computes it,
  that is, rounded to the nearest \<open>double\<close>: for a positive sampling interval \<open>dt\<close> and
  non-negative durations whose quotient by \<open>dt\<close> is at most \<open>2\<^sup>3\<^sup>1 - 1\<close>, fewer than \<open>2\<^sup>3\<^sup>1\<close>
  rows in all (the node count and the row counter are of type \<open>int\<close>), ids inside the
  sequence and a support triangle for the step of every segment that is not in full
  support, building the edge list and then the inequality constraints raises no error and
  gives that many rows.  The floor of the rounded quotient is \<open>floor(duration / dt)\<close> or one
  more.  A full-support segment is left out of the sum, and a segment whose duration is a
  \<open>double\<close> smaller than the \<open>double\<close> \<open>dt\<close> adds zero to it.
\<close>

theorem inequality_row_count:
  assumes "0 < dt"
    and "\<forall>s\<in>set splines. \<not> four_leg_supp s \<longrightarrow> 0 \<le> duration s \<and> duration s / dt \<le> 2 ^ 31 - 1"
    and "\<forall>s\<in>set splines. spline_id s < length splines"
    and "\<forall>s\<in>set splines. \<not> four_leg_supp s \<longrightarrow> step s < length supp_triangles"
    and "3 * (\<Sum>s\<leftarrow>filter (\<lambda>s. \<not> four_leg_supp s) splines. floor_quotient (duration s) dt) < 2 ^ 31"
  shows "(\<exists>lines st.
           LineForConstraint CalcLines splines supp_triangles dt = Inr lines \<and>
           CreateInequalityContraints splines start_cog_p start_cog_v lines h dt = Inr st \<and>
           int (cols (M (l_ineq st))) =
             3 * (\<Sum>s\<leftarrow>filter (\<lambda>s. \<not> four_leg_supp s) splines. floor_quotient (duration s) dt) \<and>
           vsize (v (l_ineq st)) = cols (M (l_ineq st)) \<and>
           l_c st = cols (M (l_ineq st))) \<and>
         (\<forall>s\<in>set splines. \<not> four_leg_supp s \<longrightarrow>
            \<lfloor>duration s / dt\<rfloor> \<le> floor_quotient (duration s) dt \<and>
            floor_quotient (duration s) dt \<le> \<lfloor>duration s / dt\<rfloor> + 1) \<and>
         (\<forall>s\<in>set splines. \<not> four_leg_supp s \<longrightarrow>
            is_double (duration s) \<longrightarrow> is_double dt \<longrightarrow> duration s < dt \<longrightarrow>
            floor_quotient (duration s) dt = 0)"
proof (intro conjI ballI impI)
  have "\<forall>s\<in>set splines. \<not> four_leg_supp s \<longrightarrow>
          finite_quotient (duration s) dt \<and> int_quotient (duration s) dt \<and>
          0 \<le> floor_quotient (duration s) dt"
    using assms(1,2) quotient_fits by blast
  from inequality_rows_built[OF assms(3,4) this]
  show "\<exists>lines st.
           LineForConstraint CalcLines splines supp_triangles dt = Inr lines \<and>
           CreateInequalityContraints splines start_cog_p start_cog_v lines h dt = Inr st \<and>
           int (cols (M (l_ineq st))) =
             3 * (\<Sum>s\<leftarrow>filter (\<lambda>s. \<not> four_leg_supp s) splines. floor_quotient (duration s) dt) \<and>
           vsize (v (l_ineq st)) = cols (M (l_ineq st)) \<and>
           l_c st = cols (M (l_ineq st))" .
next
  fix s assume "s \<in> set splines" "\<not> four_leg_supp s"
  then have b: "0 \<le> duration s" "duration s / dt \<le> 2 ^ 31 - 1" using assms(2) by auto
  from floor_quotient_near[OF assms(1) b]
  show "\<lfloor>duration s / dt\<rfloor> \<le> floor_quotient (duration s) dt"
    and "floor_quotient (duration s) dt \<le> \<lfloor>duration s / dt\<rfloor> + 1" by simp_all
next
  fix s assume "s \<in> set splines" "\<not> four_leg_supp s"
    and d: "is_double (duration s)" "is_double dt" "duration s < dt"
  then have "0 \<le> duration s" using assms(2) by auto
  from floor_quotient_short[OF d(1,2) this d(3)]
  show "floor_quotient (duration s) dt = 0" .
qed

theorem inequality_row_count_witness:
  "(0::real) < double_literal 0.1 \<and>
   is_double (double_literal 0.1) \<and> is_double (1 / 16) \<and> (1 / 16 :: real) < double_literal 0.1 \<and>
   floor_quotient (1 / 16) (double_literal 0.1) = 0 \<and>
   floor_quotient (1 / 2) (double_literal 0.1) = 5 \<and>
   (\<exists>lines st.
      LineForConstraint (\<lambda>tri. (tri, tri, tri))
        [\<lparr>spline_id = 0, duration = 1, four_leg_supp = True, step = 0\<rparr>,
         \<lparr>spline_id = 1, duration = 1 / 16, four_leg_supp = False, step = 0\<rparr>,
         \<lparr>spline_id = 2, duration = 1 / 2, four_leg_supp = False, step = 0\<rparr>]
        [\<lparr>coeff = \<lparr>p = 1, q = 0, r = 0\<rparr>, s_margin = 0\<rparr>] (double_literal 0.1) = Inr lines \<and>
      CreateInequalityContraints
        [\<lparr>spline_id = 0, duration = 1, four_leg_supp = True, step = 0\<rparr>,
         \<lparr>spline_id = 1, duration = 1 / 16, four_leg_supp = False, step = 0\<rparr>,
         \<lparr>spline_id = 2, duration = 1 / 2, four_leg_supp = False, step = 0\<rparr>]
        (0, 0) (0, 0) lines (1 / 2) (double_literal 0.1) = Inr st \<and>
      cols (M (l_ineq st)) = 15)"
proof -
  let ?s1 = "\<lparr>spline_id = 1, duration = 1 / 16, four_leg_supp = False, step = 0\<rparr>"
  let ?ss = "[\<lparr>spline_id = 0, duration = 1, four_leg_supp = True, step = 0\<rparr>, ?s1,
         \<lparr>spline_id = 2, duration = 1 / 2, four_leg_supp = False, step = 0\<rparr>]"
  let ?dt = "double_literal 0.1"
  have dt: "?dt = 3602879701896397 / 36028797018963968" by (rule double_literal_tenth)
  have 1: "(0::real) < ?dt" by (simp add: dt)
  have 2: "\<forall>s\<in>set ?ss. \<not> four_leg_supp s \<longrightarrow> 0 \<le> duration s \<and> duration s / ?dt \<le> 2 ^ 31 - 1"
    by (simp add: dt)
  have 3: "\<forall>s\<in>set ?ss. spline_id s < length ?ss" by simp
  have 4: "\<forall>s\<in>set ?ss. \<not> four_leg_supp s \<longrightarrow>
             step s < length [\<lparr>coeff = \<lparr>p = 1, q = 0, r = 0\<rparr>, s_margin = 0\<rparr>]" by simp
  have d: "is_double ?dt" "is_double (1 / 16)" "(1 / 16 :: real) < ?dt"
    unfolding dt by (simp_all add: double_eval)
  have q: "floor_quotient (1 / 2) ?dt = 5" "floor_quotient (1 / 16) ?dt = 0"
    unfolding dt by (simp_all add: double_eval)
  have 5: "3 * (\<Sum>s\<leftarrow>filter (\<lambda>s. \<not> four_leg_supp s) ?ss. floor_quotient (duration s) ?dt) < 2 ^ 31"
    by (simp add: q)
  note t = inequality_row_count[OF 1 2 3 4 5, of "\<lambda>tri. (tri, tri, tri)" "(0, 0)" "(0, 0)" "1 / 2"]
  have z: "floor_quotient (1 / 16) ?dt = 0"
    using t d by simp
  from t obtain lines st where
    "LineForConstraint (\<lambda>tri. (tri, tri, tri)) ?ss
        [\<lparr>coeff = \<lparr>p = 1, q = 0, r = 0\<rparr>, s_margin = 0\<rparr>] ?dt = Inr lines"
    "CreateInequalityContraints ?ss (0, 0) (0, 0) lines (1 / 2) ?dt = Inr st"
    "int (cols (M (l_ineq st))) =
       3 * (\<Sum>s\<leftarrow>filter (\<lambda>s. \<not> four_leg_supp s) ?ss. floor_quotient (duration s) ?dt)"
    by blast
  then show ?thesis using 1 d q z by (intro conjI exI[of _ lines] exI[of _ st]) simp_all
qed

text \<open>The count is not the floor of the exact quotient.  With the duration \<open>1/2\<close> and the
  \<open>double\<close> that the literal \<open>0.1\<close> denotes, the exact quotient is just below \<open>5\<close> and the
  program builds \<open>3 \<cdot> 5\<close> rows, not \<open>3 \<cdot> 4\<close>; with the doubles that \<open>0.3\<close> and \<open>0.1\<close> denote,
  the program builds \<open>3 \<cdot> 2\<close> rows, where the quotient of the decimal numbers gives
  \<open>3 \<cdot> 3\<close>.\<close>

theorem inequality_row_count_counterexample:
  "(\<exists>lines st.
      LineForConstraint same_edges
        [\<lparr>spline_id = 0, duration = 1 / 2, four_leg_supp = False, step = 0\<rparr>]
        [edge_x] (double_literal 0.1) = Inr lines \<and>
      CreateInequalityContraints
        [\<lparr>spline_id = 0, duration = 1 / 2, four_leg_supp = False, step = 0\<rparr>]
        (0, 0) (0, 0) lines (1 / 2) (double_literal 0.1) = Inr st \<and>
      int (cols (M (l_ineq st))) = 15) \<and>
   3 * \<lfloor>(1 / 2) / double_literal 0.1\<rfloor> = 12 \<and>
   (\<exists>lines st.
      LineForConstraint same_edges
        [\<lparr>spline_id = 0, duration = double_literal 0.3, four_leg_supp = False, step = 0\<rparr>]
        [edge_x] (double_literal 0.1) = Inr lines \<and>
      CreateInequalityContraints
        [\<lparr>spline_id = 0, duration = double_literal 0.3, four_leg_supp = False, step = 0\<rparr>]
        (0, 0) (0, 0) lines (1 / 2) (double_literal 0.1) = Inr st \<and>
      int (cols (M (l_ineq st))) = 6) \<and>
   3 * \<lfloor>(0.3 :: real) / 0.1\<rfloor> = 9"
proof -
  let ?dt = "double_literal 0.1"
  have dt: "?dt = 3602879701896397 / 36028797018963968" by (rule double_literal_tenth)
  have d3: "double_literal 0.3 = 5404319552844595 / 18014398509481984"
    by (simp add: double_eval)
  have a: "\<exists>lines st.
      LineForConstraint same_edges
        [\<lparr>spline_id = 0, duration = 1 / 2, four_leg_supp = False, step = 0\<rparr>] [edge_x] ?dt = Inr lines \<and>
      CreateInequalityContraints
        [\<lparr>spline_id = 0, duration = 1 / 2, four_leg_supp = False, step = 0\<rparr>]
        (0, 0) (0, 0) lines (1 / 2) ?dt = Inr st \<and>
      int (cols (M (l_ineq st))) = 15"
  proof -
    let ?ss = "[\<lparr>spline_id = 0, duration = 1 / 2, four_leg_supp = False, step = 0\<rparr>]"
    have "\<forall>s\<in>set ?ss. \<not> four_leg_supp s \<longrightarrow>
            finite_quotient (duration s) ?dt \<and> int_quotient (duration s) ?dt \<and>
            0 \<le> floor_quotient (duration s) ?dt"
      unfolding dt by (simp add: double_eval)
    moreover have "\<forall>s\<in>set ?ss. spline_id s < length ?ss"
      "\<forall>s\<in>set ?ss. \<not> four_leg_supp s \<longrightarrow> step s < length [edge_x]" by simp_all
    moreover have "floor_quotient (1 / 2) ?dt = 5" unfolding dt by (simp add: double_eval)
    ultimately show ?thesis
      using inequality_rows_built[of ?ss "[edge_x]" ?dt same_edges "(0, 0)" "(0, 0)" "1 / 2"]
      by auto
  qed
  have b: "\<exists>lines st.
      LineForConstraint same_edges
        [\<lparr>spline_id = 0, duration = double_literal 0.3, four_leg_supp = False, step = 0\<rparr>]
        [edge_x] ?dt = Inr lines \<and>
      CreateInequalityContraints
        [\<lparr>spline_id = 0, duration = double_literal 0.3, four_leg_supp = False, step = 0\<rparr>]
        (0, 0) (0, 0) lines (1 / 2) ?dt = Inr st \<and>
      int (cols (M (l_ineq st))) = 6"
  proof -
    let ?ss = "[\<lparr>spline_id = 0, duration = double_literal 0.3, four_leg_supp = False, step = 0\<rparr>]"
    have "\<forall>s\<in>set ?ss. \<not> four_leg_supp s \<longrightarrow>
            finite_quotient (duration s) ?dt \<and> int_quotient (duration s) ?dt \<and>
            0 \<le> floor_quotient (duration s) ?dt"
      unfolding dt d3 by (simp add: double_eval)
    moreover have "\<forall>s\<in>set ?ss. spline_id s < length ?ss"
      "\<forall>s\<in>set ?ss. \<not> four_leg_supp s \<longrightarrow> step s < length [edge_x]" by simp_all
    moreover have "floor_quotient (double_literal 0.3) ?dt = 2"
      unfolding dt d3 by (simp add: double_eval)
    ultimately show ?thesis
      using inequality_rows_built[of ?ss "[edge_x]" ?dt same_edges "(0, 0)" "(0, 0)" "1 / 2"]
      by auto
  qed
  have c: "3 * \<lfloor>(1 / 2) / ?dt\<rfloor> = 12" unfolding dt by simp
  have e: "3 * \<lfloor>(0.3 :: real) / 0.1\<rfloor> = 9" by simp
  show ?thesis using a b c e by blast
qed

section \<open>Properties of the optimizer\<close>

text \<open>
  Claim C6.  If the spline sequence is empty, \<open>SetupQpMatrices\<close> throws the runtime error
  before any builder runs: the optimizer it leaves behind is the one it was given, with
  the cost, equality and inequality members unchanged.
\<close>

theorem setup_empty_sequence_raises:
  assumes "m_zmp_splines st = []"
  shows "SetupQpMatrices FromFootholds CalcLines start_cog_p start_cog_v start_stance steps weight
           margins height_robot st = Inl (runtime_error, st)"
  using assms by (simp add: SetupQpMatrices_def)

theorem setup_empty_sequence_raises_witness:
  "m_zmp_splines (blank_optimizer []) = [] \<and>
   SetupQpMatrices one_triangle same_edges (0, 0) (0, 0) (stance_at 0 0) [] (1, 1) () (1 / 2)
     (blank_optimizer []) = Inl (runtime_error, blank_optimizer [])"
proof -
  have h: "m_zmp_splines (blank_optimizer []) = []" by (simp add: blank_optimizer_def)
  from setup_empty_sequence_raises[OF h] h show ?thesis by simp
qed

text \<open>
  Claim C7.  \<open>SolveQp\<close> throws (a length error) exactly when the cost the solver returns is
  infinite or below \<open>0.002\<close>; otherwise it returns the coefficient vector of the solver
  unchanged.
\<close>

theorem solve_qp_raises_iff_infeasible:
  "SolveQp solve_quadprog st =
     (if infinite_or_below_threshold
           (fst (solve_quadprog (m_cf st) (m_eq st) (m_ineq st) (GetOptCoeffCount (m_zmp_splines st))))
      then Inl length_error
      else Inr (snd (solve_quadprog (m_cf st) (m_eq st) (m_ineq st)
                       (GetOptCoeffCount (m_zmp_splines st)))))"
proof -
  obtain cost x where r: "solve_quadprog (m_cf st) (m_eq st) (m_ineq st)
      (GetOptCoeffCount (m_zmp_splines st)) = (cost, x)"
    by (cases "solve_quadprog (m_cf st) (m_eq st) (m_ineq st) (GetOptCoeffCount (m_zmp_splines st))")
  show ?thesis
    by (cases cost) (simp_all add: SolveQp_def r infinite_or_below_threshold_def)
qed

lemma end_cog_average:
  "div2 (fold (\<lambda>leg end_cog. add2 end_cog (segment_xy (foot_p (final_stance leg)))) LegIDArray (0, 0)) 4
   = ((fst (segment_xy (foot_p (final_stance LF))) + fst (segment_xy (foot_p (final_stance RF)))
         + fst (segment_xy (foot_p (final_stance LH))) + fst (segment_xy (foot_p (final_stance RH)))) / 4,
      (snd (segment_xy (foot_p (final_stance LF))) + snd (segment_xy (foot_p (final_stance RF)))
         + snd (segment_xy (foot_p (final_stance LH))) + snd (segment_xy (foot_p (final_stance RH)))) / 4)"
  by (simp add: LegIDArray_def add2_def div2_def)

lemma Setup_m_eq:
  assumes ne: "m_zmp_splines st \<noteq> []"
    and cf: "CreateMinAccCostFunction (m_zmp_splines st) weight = Inr cf"
    and ff: "FromFootholds start_stance steps margins = (tr, final_stance)"
    and eq: "CreateEqualityContraints (m_zmp_splines st) start_cog_p start_cog_v
        (div2 (fold (\<lambda>leg end_cog. add2 end_cog (segment_xy (foot_p (final_stance leg)))) LegIDArray (0, 0)) 4)
         = Inr ec"
  shows "m_eq (state_after (SetupQpMatrices FromFootholds CalcLines start_cog_p start_cog_v
           start_stance steps weight margins height_robot st)) = ec"
  using ne
  by (auto simp: SetupQpMatrices_def throwing_def cf ff eq Let_def state_after_def store_ipopt_def
       split: sum.splits prod.splits)

text \<open>
  Claim C8.  For a non-empty sequence with ids inside it, the equality constraints that
  \<open>SetupQpMatrices\<close> stores were built with the terminal position that is the
  component-wise sum of the four final-stance footholds, divided by four.
\<close>

theorem setup_end_cog_is_average_of_final_stance:
  assumes "m_zmp_splines st \<noteq> []"
    and "\<forall>s\<in>set (m_zmp_splines st). spline_id s < length (m_zmp_splines st)"
    and "FromFootholds start_stance steps margins = (tr, final_stance)"
  shows "\<exists>ec. CreateEqualityContraints (m_zmp_splines st) start_cog_p start_cog_v
      ((fst (segment_xy (foot_p (final_stance LF))) + fst (segment_xy (foot_p (final_stance RF)))
         + fst (segment_xy (foot_p (final_stance LH))) + fst (segment_xy (foot_p (final_stance RH)))) / 4,
       (snd (segment_xy (foot_p (final_stance LF))) + snd (segment_xy (foot_p (final_stance RF)))
         + snd (segment_xy (foot_p (final_stance LH))) + snd (segment_xy (foot_p (final_stance RH)))) / 4)
         = Inr ec \<and>
       m_eq (state_after (SetupQpMatrices FromFootholds CalcLines start_cog_p start_cog_v
           start_stance steps weight margins height_robot st)) = ec"
proof -
  obtain cf where cf: "CreateMinAccCostFunction (m_zmp_splines st) weight = Inr cf"
    using CreateMinAccCostFunction_symmetric[OF assms(2)] by blast
  have "spline_id (last (m_zmp_splines st)) < length (m_zmp_splines st)"
    using assms(1,2) by simp
  from CreateEqualityContraints_ok[OF assms(1) this]
  obtain ec where ec: "CreateEqualityContraints (m_zmp_splines st) start_cog_p start_cog_v
        (div2 (fold (\<lambda>leg end_cog. add2 end_cog (segment_xy (foot_p (final_stance leg)))) LegIDArray (0, 0)) 4)
         = Inr ec"
    by blast
  show ?thesis
    using Setup_m_eq[where FromFootholds=FromFootholds, OF assms(1) cf assms(3) ec] ec
    by (simp add: end_cog_average)
qed

theorem setup_end_cog_is_average_of_final_stance_witness:
  "m_zmp_splines (blank_optimizer [\<lparr>spline_id = 0, duration = 1, four_leg_supp = False, step = 0\<rparr>]) \<noteq> [] \<and>
   one_triangle (stance_at 0 0) [] () =
     ([edge_x], stance_at 3 5) \<and>
   (\<exists>ec. CreateEqualityContraints [\<lparr>spline_id = 0, duration = 1, four_leg_supp = False, step = 0\<rparr>]
           (0, 0) (0, 0) (3, 5) = Inr ec \<and>
         m_eq (state_after (SetupQpMatrices one_triangle same_edges (0, 0) (0, 0) (stance_at 0 0) []
                 (1, 1) () (1 / 2)
                 (blank_optimizer [\<lparr>spline_id = 0, duration = 1, four_leg_supp = False, step = 0\<rparr>])))
           = ec)"
proof -
  let ?ss = "[\<lparr>spline_id = 0, duration = 1, four_leg_supp = False, step = 0\<rparr>]"
  have 1: "m_zmp_splines (blank_optimizer ?ss) \<noteq> []" by (simp add: blank_optimizer_def)
  have 2: "\<forall>s\<in>set (m_zmp_splines (blank_optimizer ?ss)).
             spline_id s < length (m_zmp_splines (blank_optimizer ?ss))"
    by (simp add: blank_optimizer_def)
  have 3: "one_triangle (stance_at 0 0) [] () =
     ([edge_x], stance_at 3 5)"
    by (simp add: one_triangle_def)
  have m: "m_zmp_splines (blank_optimizer ?ss) = ?ss" by (simp add: blank_optimizer_def)
  from setup_end_cog_is_average_of_final_stance
         [where FromFootholds = one_triangle and start_stance = "stance_at 0 0" and steps = "[]"
            and margins = "()" and CalcLines = same_edges and weight = "(1, 1)"
            and height_robot = "1 / 2" and start_cog_p = "(0, 0)" and start_cog_v = "(0, 0)",
          OF 1 2 3]
  show ?thesis
    using 1 3 by (simp add: m stance_at_def segment_xy_def)
qed

text \<open>
  Claim C9.  \<open>SolveIpopt\<close> throws only when the initialization does not succeed.  When it
  succeeds, whatever status the optimization returns, the call writes the final footholds
  of the NLP object to the output parameter and returns its coefficient vector.
\<close>

theorem solve_ipopt_raises_only_on_init_failure:
  "(isl (fst (SolveIpopt Initialize SetupNlp OptimizeTNLP st final_footholds opt_coefficients_eig))
      \<longleftrightarrow> Initialize \<noteq> Solve_Succeeded) \<and>
   (Initialize \<noteq> Solve_Succeeded \<longrightarrow>
      SolveIpopt Initialize SetupNlp OptimizeTNLP st final_footholds opt_coefficients_eig
        = (Inl length_error, final_footholds)) \<and>
   (Initialize = Solve_Succeeded \<longrightarrow>
    OptimizeTNLP (SetupNlp st opt_coefficients_eig) = (status, nlp) \<longrightarrow>
      SolveIpopt Initialize SetupNlp OptimizeTNLP st final_footholds opt_coefficients_eig
        = (Inr (x_final_spline_coeff nlp), x_final_footholds nlp))"
proof (cases "Initialize = Solve_Succeeded")
  case True
  obtain status' nlp' where o: "OptimizeTNLP (SetupNlp st opt_coefficients_eig) = (status', nlp')"
    by (cases "OptimizeTNLP (SetupNlp st opt_coefficients_eig)")
  have "SolveIpopt Initialize SetupNlp OptimizeTNLP st final_footholds opt_coefficients_eig
      = (Inr (x_final_spline_coeff nlp'), x_final_footholds nlp')"
    using True by (simp add: SolveIpopt_def Let_def o)
  then show ?thesis using True o by auto
next
  case False
  then have "SolveIpopt Initialize SetupNlp OptimizeTNLP st final_footholds opt_coefficients_eig
      = (Inl length_error, final_footholds)"
    by (simp add: SolveIpopt_def Let_def)
  then show ?thesis using False by simp
qed

theorem solve_ipopt_raises_only_on_init_failure_witness:
  "SolveIpopt Solve_Succeeded
      (\<lambda>st x. \<lparr>x_final_footholds = VectorXd_Zero 8, x_final_spline_coeff = x\<rparr>)
      (\<lambda>nlp. (Infeasible_Problem_Detected, nlp))
      (blank_optimizer []) (VectorXd_Zero 0) (VectorXd_Zero 16)
     = (Inr (VectorXd_Zero 16), VectorXd_Zero 8) \<and>
   SolveIpopt Invalid_Option
      (\<lambda>st x. \<lparr>x_final_footholds = VectorXd_Zero 8, x_final_spline_coeff = x\<rparr>)
      (\<lambda>nlp. (Solve_Succeeded, nlp))
      (blank_optimizer []) (VectorXd_Zero 0) (VectorXd_Zero 16)
     = (Inl length_error, VectorXd_Zero 0)"
  using solve_ipopt_raises_only_on_init_failure
          [of Solve_Succeeded "\<lambda>st x. \<lparr>x_final_footholds = VectorXd_Zero 8, x_final_spline_coeff = x\<rparr>"
              "\<lambda>nlp. (Infeasible_Problem_Detected, nlp)" "blank_optimizer []" "VectorXd_Zero 0"
              "VectorXd_Zero 16" Infeasible_Problem_Detected
              "\<lparr>x_final_footholds = VectorXd_Zero 8, x_final_spline_coeff = VectorXd_Zero 16\<rparr>"]
        solve_ipopt_raises_only_on_init_failure
          [of Invalid_Option "\<lambda>st x. \<lparr>x_final_footholds = VectorXd_Zero 8, x_final_spline_coeff = x\<rparr>"
              "\<lambda>nlp. (Solve_Succeeded, nlp)" "blank_optimizer []" "VectorXd_Zero 0"
              "VectorXd_Zero 16" Solve_Succeeded
              "\<lparr>x_final_footholds = VectorXd_Zero 8, x_final_spline_coeff = VectorXd_Zero 16\<rparr>"]
  by simp

section \<open>The rows of the inequality constraints\<close>

lemma with_col_simps [simp]:
  "rows (with_col R k f m) = rows m"
  "cols (with_col R k f m) = cols m"
  "with_col R k f (with_col R k g m) = with_col R k f m"
  by (simp_all add: with_col_def cong: if_cong)

lemma with_col_self: "with_col R k (\<lambda>i. coeffs m i k) m = m"
  by (auto simp: with_col_def intro!: MatrixXd.equality ext)

lemma set_coeff_with_col:
  "ri < R \<Longrightarrow> rows m = R \<Longrightarrow> k < cols m \<Longrightarrow>
   set_coeff ri k x (with_col R k f m) = Inr (with_col R k (f(ri := x)) m)"
  by (auto simp: set_coeff_def with_col_def intro!: MatrixXd.equality ext)

lemma add_col_with_col:
  "vsize vec = R \<Longrightarrow> rows m = R \<Longrightarrow> k < cols m \<Longrightarrow>
   add_col k vec (with_col R k f m) = Inr (with_col R k (\<lambda>i. f i + elems vec i) m)"
  by (auto simp: add_col_def with_col_def intro!: MatrixXd.equality ext)

lemma set_col_with_col:
  "vsize vec = R \<Longrightarrow> rows m = R \<Longrightarrow> k < cols m \<Longrightarrow>
   set_col k vec m = Inr (with_col R k (elems vec) m)"
  by (auto simp: set_col_def with_col_def intro!: MatrixXd.equality ext)

lemma get_col_with_col:
  "rows m = R \<Longrightarrow> k < cols m \<Longrightarrow>
   get_col k (with_col R k f m) = Inr \<lparr>elems = (\<lambda>i. if i < R then f i else 0), vsize = R\<rparr>"
  by (auto simp: get_col_def with_col_def)

lemma stmt_on_ipopt:
  "f (l_c st) (l_ineq_ipopt st) = Inr m' \<Longrightarrow> stmt (on_ipopt f) st = Inr (st\<lparr>l_ineq_ipopt := m'\<rparr>)"
  by (simp add: stmt_def on_ipopt_def)

lemma elems_scale [simp]: "elems (scale x vec) i = x * elems vec i"
  by (simp add: scale_def)

lemma ineq_edge_dim_eq:
  assumes m0: "rows m0 = R" "k < cols m0" and k: "l_c st = k"
    and b: "var_index ki dm D < R"
    and sz: "vsize Ekx = R" "vsize Fkx = R" "vsize Eky = R" "vsize Fky = R"
  shows "ineq_edge_dim ki h t Ekx Fkx Eky Fky dm (st\<lparr>l_ineq_ipopt := with_col R k f m0\<rparr>)
       = Inr (st\<lparr>l_ineq_ipopt := with_col R k
                 (dim_col ki h t (if dm = X then Ekx else Eky) (if dm = X then Fkx else Fky) dm f) m0\<rparr>)"
proof -
  have bs: "var_index ki dm A < R" "var_index ki dm B < R" "var_index ki dm C < R"
    using b by (simp_all add: var_index_def idx)
  show ?thesis
    unfolding ineq_edge_dim_def Let_def dim_col_def
    using m0 k b bs sz
    by (simp add: stmt_on_ipopt set_coeff_with_col add_col_with_col)
qed

lemma ineq_edge_row_eq:
  assumes at: "ineq_at R Cn k st" and k: "k < Cn"
    and ip: "l_ineq_ipopt st = with_col R k f m0" "rows m0 = R"
    and lc: "GetXyDimAlternatingVector splines (p (coeff l)) (q (coeff l)) = Inr lcxy" "vsize lcxy = R"
  shows "\<exists>st'. ineq_edge_row splines l t ndex ndfx ndey ndfy st = Inr st' \<and>
           ineq_at R Cn (Suc k) st' \<and>
           l_ineq_ipopt st' = l_ineq_ipopt st \<and>
           (\<forall>i<R. coeffs (M (l_ineq st')) i k = f i * elems lcxy i) \<and>
           (\<forall>i c. c \<noteq> k \<longrightarrow> coeffs (M (l_ineq st')) i c = coeffs (M (l_ineq st)) i c) \<and>
           elems (v (l_ineq st')) k =
             elems (v (l_ineq st)) k + p (coeff l) * (ndex * t ! 0 + ndfx)
               + q (coeff l) * (ndey * t ! 0 + ndfy) + (r (coeff l) - s_margin l) \<and>
           (\<forall>c. c \<noteq> k \<longrightarrow> elems (v (l_ineq st')) c = elems (v (l_ineq st)) c)"
proof -
  have c: "cols m0 = Cn" using at ip by (simp add: ineq_at_def)
  show ?thesis
    unfolding ineq_edge_row_def
    using at k ip(2) c
    by (simp add: ineq_at_def dims_ok_def lc ip(1) stmt_def on_ineq_def on_vx_def on_vy_def
        get_col_with_col cwiseProduct_def inM_def inV_def set_col_def set_elem_def get_elem_def
        add_elem_def)
qed

lemma E_by_prev_support:
  assumes "dm < 2" "i div 4 mod 2 \<noteq> dm \<or> 8 * k \<le> i"
  shows "fst (E_by_prev splines k dm v0) i = 0"
  using assms
proof (induction k)
  case 0
  show ?case by simp
next
  case (Suc k)
  have ne: "i \<noteq> var_index k dm e" if "e \<le> 3" for e
  proof
    assume "i = var_index k dm e"
    then have i: "i = 4 * (2 * k + dm) + e" by (simp add: var_index_def idx)
    have "i div 4 = 2 * k + dm" unfolding i using that by simp
    then have "i div 4 mod 2 = dm" "i < 8 * Suc k" using Suc.prems(1) i that by simp_all
    with Suc.prems(2) show False by simp
  qed
  have "fst (E_by_prev splines k dm v0) i = 0"
    using Suc by auto
  then show ?case
    using ne[of 0] ne[of 1] ne[of 2] ne[of 3]
    by (simp add: Let_def split_beta idx)
qed

lemma F_by_prev_support:
  assumes "dm < 2" "i div 4 mod 2 \<noteq> dm \<or> 8 * k \<le> i"
  shows "fst (F_by_prev splines k dm v0 p0) i = 0"
  using assms
proof (induction k)
  case 0
  show ?case by simp
next
  case (Suc k)
  have ne: "i \<noteq> var_index k dm e" if "e \<le> 3" for e
  proof
    assume "i = var_index k dm e"
    then have i: "i = 4 * (2 * k + dm) + e" by (simp add: var_index_def idx)
    have "i div 4 = 2 * k + dm" unfolding i using that by simp
    then have "i div 4 mod 2 = dm" "i < 8 * Suc k" using Suc.prems(1) i that by simp_all
    with Suc.prems(2) show False by simp
  qed
  have "fst (F_by_prev splines k dm v0 p0) i = 0"
    using Suc by auto
  moreover have "fst (E_by_prev splines k dm v0) i = 0"
    using Suc.prems by (intro E_by_prev_support) auto
  ultimately show ?case
    using ne[of 0] ne[of 1] ne[of 2] ne[of 3]
    by (simp add: Let_def split_beta idx)
qed

lemma zmp_own_support:
  assumes "dm < 2" "i div 4 mod 2 \<noteq> dm"
  shows "zmp_own g h k dm t i = 0"
proof -
  have ne: "i \<noteq> var_index k dm e" if "e \<le> 3" for e
  proof
    assume "i = var_index k dm e"
    then have i: "i = 4 * (2 * k + dm) + e" by (simp add: var_index_def idx)
    have "i div 4 = 2 * k + dm" unfolding i using that by simp
    then have "i div 4 mod 2 = dm" using assms(1) by simp
    with assms(2) show False by simp
  qed
  show ?thesis
    using ne[of 0] ne[of 1] ne[of 2] ne[of 3] by (simp add: zmp_own_def idx)
qed

lemma GetXy_take:
  assumes wf: "wf_splines splines" and m: "m \<le> length splines" and N: "8 * length splines \<le> N"
  shows "foldE (\<lambda>s vec.
          bindE (fill_middleRows (var_index (spline_id s) X A) kOptCoeff x vec)
            (fill_middleRows (var_index (spline_id s) Y A) kOptCoeff y))
          (take m splines) (VectorXd_Zero N)
       = Inr \<lparr>elems = xy_alternating (8 * m) x y, vsize = N\<rparr>"
  using m
proof (induction m)
  case 0
  show ?case by (simp add: VectorXd_Zero_def xy_alternating_def)
next
  case (Suc m)
  let ?f = "(\<lambda>s vec.
          bindE (fill_middleRows (var_index (spline_id s) X A) kOptCoeff x vec)
            (fill_middleRows (var_index (spline_id s) Y A) kOptCoeff y))"
  have m: "m < length splines" using Suc.prems by simp
  have id: "spline_id (splines ! m) = m" using wf_splines_nth[OF wf m] .
  have IH: "foldE ?f (take m splines) (VectorXd_Zero N)
       = Inr \<lparr>elems = xy_alternating (8 * m) x y, vsize = N\<rparr>"
    using Suc by simp
  have b: "8 * m + 8 \<le> N" using m N by simp
  have step: "?f (splines ! m) \<lparr>elems = xy_alternating (8 * m) x y, vsize = N\<rparr>
       = Inr \<lparr>elems = xy_alternating (8 * Suc m) x y, vsize = N\<rparr>"
  proof -
    have e: "(if 8 * m + 4 \<le> i \<and> i < 8 * m + 4 + 4 then y
              else if 8 * m \<le> i \<and> i < 8 * m + 4 then x else xy_alternating (8 * m) x y i)
           = xy_alternating (8 * Suc m) x y i" for i
    proof -
      consider "i < 8 * m" | "8 * m \<le> i \<and> i < 8 * m + 4" | "8 * m + 4 \<le> i \<and> i < 8 * m + 8"
        | "8 * m + 8 \<le> i" by linarith
      then show ?thesis
      proof cases
        case 1 then show ?thesis by (simp add: xy_alternating_def)
      next
        case 2
        then have "i div 4 = 2 * m" by linarith
        with 2 show ?thesis by (simp add: xy_alternating_def)
      next
        case 3
        then have "i div 4 = 2 * m + 1" by linarith
        with 3 show ?thesis by (simp add: xy_alternating_def)
      next
        case 4 then show ?thesis by (simp add: xy_alternating_def)
      qed
    qed
    have vx: "var_index m X A = 8 * m" "var_index m Y A = 8 * m + 4" "kOptCoeff = 4"
      by (simp_all add: var_index_def idx)
    let ?V = "\<lparr>elems = xy_alternating (8 * m) x y, vsize = N\<rparr>"
    let ?V1 = "?V\<lparr>elems := \<lambda>i. if 8 * m \<le> i \<and> i < 8 * m + 4 then x else elems ?V i\<rparr>"
    have 1: "fill_middleRows (8 * m) 4 x ?V = Inr ?V1"
      using b unfolding fill_middleRows_def by simp
    have 2: "fill_middleRows (8 * m + 4) 4 y ?V1
           = Inr (?V1\<lparr>elems := \<lambda>i. if 8 * m + 4 \<le> i \<and> i < 8 * m + 4 + 4 then y else elems ?V1 i\<rparr>)"
      using b unfolding fill_middleRows_def by simp
    have 3: "(\<lambda>i. if 8 * m + 4 \<le> i \<and> i < 8 * m + 4 + 4 then y else elems ?V1 i)
           = xy_alternating (8 * Suc m) x y"
    proof
      fix i
      have "elems ?V1 i = (if 8 * m \<le> i \<and> i < 8 * m + 4 then x else xy_alternating (8 * m) x y i)"
        by simp
      then show "(if 8 * m + 4 \<le> i \<and> i < 8 * m + 4 + 4 then y else elems ?V1 i)
           = xy_alternating (8 * Suc m) x y i"
        using e[of i] by (simp only:)
    qed
    show ?thesis
      unfolding id vx by (simp only: 1 2 3 bindE_Inr) simp
  qed
  show ?case
    by (simp only: take_Suc_conv_app_nth[OF m] foldE_snoc IH bindE_Inr step)
qed

lemma GetXyDimAlternatingVector_wf:
  assumes "wf_splines splines"
  shows "GetXyDimAlternatingVector splines x y =
           Inr \<lparr>elems = xy_alternating (GetOptCoeffCount splines) x y,
                vsize = GetOptCoeffCount splines\<rparr>"
  using GetXy_take[OF assms le_refl, of "GetOptCoeffCount splines" x y]
  by (simp add: GetXyDimAlternatingVector_def Let_def GetOptCoeffCount_def idx mult.commute)

lemma dim_col_own:
  "dim_col ki h (cache_exponents 6 time) Ek Fk dm f i =
     (if var_index ki dm A \<le> i \<and> i \<le> var_index ki dm D
      then zmp_own 9.81 h ki dm time i else f i)
     + time * elems Ek i + elems Fk i"
proof -
  have "var_index ki dm A \<le> i \<and> i \<le> var_index ki dm D \<longleftrightarrow>
        i = var_index ki dm A \<or> i = var_index ki dm B \<or> i = var_index ki dm C \<or> i = var_index ki dm D"
    by (auto simp: var_index_def idx)
  then show ?thesis
    by (simp add: dim_col_def zmp_own_def cache_exponents_nth) (auto simp: var_index_def idx)
qed

lemma built_col_eq_spec:
  assumes ki: "ki < length splines" and i: "i < R" and R: "R = GetOptCoeffCount splines"
  shows "dim_col ki h (cache_exponents 6 time)
           \<lparr>elems = fst (E_by_prev splines ki Y (at2 start_v Y)), vsize = R\<rparr>
           \<lparr>elems = fst (F_by_prev splines ki Y (at2 start_v Y) (at2 start_p Y)), vsize = R\<rparr> Y
           (dim_col ki h (cache_exponents 6 time)
              \<lparr>elems = fst (E_by_prev splines ki X (at2 start_v X)), vsize = R\<rparr>
              \<lparr>elems = fst (F_by_prev splines ki X (at2 start_v X) (at2 start_p X)), vsize = R\<rparr> X
              (\<lambda>_. 0)) i
         * xy_alternating R pp qq i
       = pp * zmp_lin 9.81 h splines start_p start_v ki X time i
         + qq * zmp_lin 9.81 h splines start_p start_v ki Y time i"
proof (cases "i div 4 mod 2 = 0")
  case True
  have notY: "\<not> (var_index ki Y A \<le> i \<and> i \<le> var_index ki Y D)"
  proof
    assume "var_index ki Y A \<le> i \<and> i \<le> var_index ki Y D"
    then have "i div 4 = 2 * ki + 1" by (simp add: var_index_def idx) linarith
    with True show False by simp
  qed
  have y0: "fst (E_by_prev splines ki Y (at2 start_v Y)) i = 0"
       "fst (F_by_prev splines ki Y (at2 start_v Y) (at2 start_p Y)) i = 0"
       "\<And>g. zmp_own g h ki Y time i = 0"
    using True by (simp_all add: E_by_prev_support F_by_prev_support zmp_own_support idx)
  have own: "\<And>g. (if var_index ki X A \<le> i \<and> i \<le> var_index ki X D
              then zmp_own g h ki X time i else 0) = zmp_own g h ki X time i"
    by (auto simp: zmp_own_def var_index_def idx)
  show ?thesis
    using True i notY
    by (auto simp: dim_col_own y0 own zmp_lin_def xy_alternating_def)
next
  case False
  then have m1: "i div 4 mod 2 = 1" by simp
  have notX: "\<not> (var_index ki X A \<le> i \<and> i \<le> var_index ki X D)"
  proof
    assume "var_index ki X A \<le> i \<and> i \<le> var_index ki X D"
    then have "i div 4 = 2 * ki" by (simp add: var_index_def idx) linarith
    with m1 show False by simp
  qed
  have x0: "fst (E_by_prev splines ki X (at2 start_v X)) i = 0"
       "fst (F_by_prev splines ki X (at2 start_v X) (at2 start_p X)) i = 0"
       "\<And>g. zmp_own g h ki X time i = 0"
    using m1 by (simp_all add: E_by_prev_support F_by_prev_support zmp_own_support idx)
  have own: "\<And>g. (if var_index ki Y A \<le> i \<and> i \<le> var_index ki Y D
              then zmp_own g h ki Y time i else 0) = zmp_own g h ki Y time i"
    by (auto simp: zmp_own_def var_index_def idx)
  have own': "(if var_index ki Y A \<le> i \<and> i \<le> var_index ki Y D
              then zmp_own g h ki Y time i else z) = zmp_own g h ki Y time i" if "z = 0" for g z
    unfolding that by (rule own)
  show ?thesis
    using m1 i notX
    by (simp add: dim_col_own x0 own' zmp_lin_def xy_alternating_def)
qed

lemma ineq_edge_built:
  assumes wf: "wf_splines splines" and R: "R = GetOptCoeffCount splines"
    and Cn: "Cn = length lines" and ki: "ki < length splines" and k: "length built < Cn"
  shows "steps_to (ineq_built R Cn built)
           (ineq_edge splines lines ki h (cache_exponents 6 time)
              (\<lparr>elems = fst (E_by_prev splines ki X (at2 start_v X)), vsize = R\<rparr>,
                 snd (E_by_prev splines ki X (at2 start_v X)))
              (\<lparr>elems = fst (F_by_prev splines ki X (at2 start_v X) (at2 start_p X)), vsize = R\<rparr>,
                 snd (F_by_prev splines ki X (at2 start_v X) (at2 start_p X)))
              (\<lparr>elems = fst (E_by_prev splines ki Y (at2 start_v Y)), vsize = R\<rparr>,
                 snd (E_by_prev splines ki Y (at2 start_v Y)))
              (\<lparr>elems = fst (F_by_prev splines ki Y (at2 start_v Y) (at2 start_p Y)), vsize = R\<rparr>,
                 snd (F_by_prev splines ki Y (at2 start_v Y) (at2 start_p Y))) j)
           (ineq_built R Cn
              (built @ [built_row 9.81 h splines start_p start_v ki time (lines ! length built)]))"
  unfolding steps_to_def
proof (intro allI impI)
  fix st assume inv: "ineq_built R Cn built st"
  let ?k = "length built"
  let ?t = "cache_exponents 6 time"
  let ?l = "lines ! ?k"
  let ?Ekx = "\<lparr>elems = fst (E_by_prev splines ki X (at2 start_v X)), vsize = R\<rparr>"
  let ?Fkx = "\<lparr>elems = fst (F_by_prev splines ki X (at2 start_v X) (at2 start_p X)), vsize = R\<rparr>"
  let ?Eky = "\<lparr>elems = fst (E_by_prev splines ki Y (at2 start_v Y)), vsize = R\<rparr>"
  let ?Fky = "\<lparr>elems = fst (F_by_prev splines ki Y (at2 start_v Y) (at2 start_p Y)), vsize = R\<rparr>"
  let ?ndex = "snd (E_by_prev splines ki X (at2 start_v X))"
  let ?ndfx = "snd (F_by_prev splines ki X (at2 start_v X) (at2 start_p X))"
  let ?ndey = "snd (E_by_prev splines ki Y (at2 start_v Y))"
  let ?ndfy = "snd (F_by_prev splines ki Y (at2 start_v Y) (at2 start_p Y))"
  let ?m0 = "l_ineq_ipopt st"
  let ?F1 = "dim_col ki h ?t ?Ekx ?Fkx X (\<lambda>_. 0)"
  let ?F2 = "dim_col ki h ?t ?Eky ?Fky Y ?F1"
  from inv have at: "ineq_at R Cn ?k st"
    and oldM: "\<forall>c<?k. \<forall>i<R. coeffs (M (l_ineq st)) i c = fst (built ! c) i"
    and oldv: "\<forall>c<?k. elems (v (l_ineq st)) c = snd (built ! c)"
    and zM: "\<forall>c\<ge>?k. \<forall>i. coeffs ?m0 i c = 0"
    and zv: "\<forall>c\<ge>?k. elems (v (l_ineq st)) c = 0"
    by (simp_all add: ineq_built_def)
  from at have m0: "rows ?m0 = R" "?k < cols ?m0" and lc: "l_c st = ?k"
    using k by (simp_all add: ineq_at_def)
  have b: "var_index ki dm D < R" if "dm < 2" for dm
    using ki that by (simp add: R GetOptCoeffCount_def var_index_def idx)
  have st0: "st = st\<lparr>l_ineq_ipopt := with_col R ?k (\<lambda>_. 0) ?m0\<rparr>"
  proof -
    have "(\<lambda>i. coeffs ?m0 i ?k) = (\<lambda>_. 0)" using zM by auto
    then have "with_col R ?k (\<lambda>_. 0) ?m0 = ?m0" using with_col_self[of R ?k ?m0] by simp
    then show ?thesis by simp
  qed
  have d0: "ineq_edge_dim ki h ?t ?Ekx ?Fkx ?Eky ?Fky 0 st
          = Inr (st\<lparr>l_ineq_ipopt := with_col R ?k ?F1 ?m0\<rparr>)"
    using ineq_edge_dim_eq[OF m0 lc b[of 0], of ?Ekx ?Fkx ?Eky ?Fky h ?t "\<lambda>_. 0"] st0
    by (simp add: idx)
  have d1: "ineq_edge_dim ki h ?t ?Ekx ?Fkx ?Eky ?Fky (Suc 0) (st\<lparr>l_ineq_ipopt := with_col R ?k ?F1 ?m0\<rparr>)
          = Inr (st\<lparr>l_ineq_ipopt := with_col R ?k ?F2 ?m0\<rparr>)"
    using ineq_edge_dim_eq[OF m0 lc b[of "Suc 0"], of ?Ekx ?Fkx ?Eky ?Fky h ?t ?F1]
    by (simp add: idx)
  let ?st1 = "st\<lparr>l_ineq_ipopt := with_col R ?k ?F2 ?m0\<rparr>"
  have dims: "foldE (ineq_edge_dim ki h ?t ?Ekx ?Fkx ?Eky ?Fky) [X..<Suc Y] st = Inr ?st1"
    unfolding dims_XY by (simp add: d0 d1)
  have at1: "ineq_at R Cn ?k ?st1" using at by (simp add: ineq_at_def)
  have lcxy: "GetXyDimAlternatingVector splines (p (coeff ?l)) (q (coeff ?l))
        = Inr \<lparr>elems = xy_alternating R (p (coeff ?l)) (q (coeff ?l)), vsize = R\<rparr>"
    using GetXyDimAlternatingVector_wf[OF wf] R by simp
  from ineq_edge_row_eq[OF at1 k _ m0(1) lcxy, of ?F2 ?t ?ndex ?ndfx ?ndey ?ndfy]
  obtain st' where st': "ineq_edge_row splines ?l ?t ?ndex ?ndfx ?ndey ?ndfy ?st1 = Inr st'"
    and at': "ineq_at R Cn (Suc ?k) st'"
    and ip': "l_ineq_ipopt st' = with_col R ?k ?F2 ?m0"
    and newM: "\<forall>i<R. coeffs (M (l_ineq st')) i ?k = ?F2 i * xy_alternating R (p (coeff ?l)) (q (coeff ?l)) i"
    and frameM: "\<forall>i c. c \<noteq> ?k \<longrightarrow> coeffs (M (l_ineq st')) i c = coeffs (M (l_ineq st)) i c"
    and newv: "elems (v (l_ineq st')) ?k =
             elems (v (l_ineq st)) ?k + p (coeff ?l) * (?ndex * ?t ! 0 + ?ndfx)
               + q (coeff ?l) * (?ndey * ?t ! 0 + ?ndfy) + (r (coeff ?l) - s_margin ?l)"
    and framev: "\<forall>c. c \<noteq> ?k \<longrightarrow> elems (v (l_ineq st')) c = elems (v (l_ineq st)) c"
    by auto
  have run: "ineq_edge splines lines ki h ?t (?Ekx, ?ndex) (?Fkx, ?ndfx) (?Eky, ?ndey) (?Fky, ?ndfy) j st
           = Inr st'"
    using k Cn lc by (simp add: ineq_edge_def dims st' del: upt_Suc)
  let ?row = "built_row 9.81 h splines start_p start_v ki time ?l"
  have rowM: "coeffs (M (l_ineq st')) i ?k = fst ?row i" if "i < R" for i
    using newM that built_col_eq_spec[OF ki that R, of h time start_v start_p]
    by (simp add: built_row_def)
  have rowv: "elems (v (l_ineq st')) ?k = snd ?row"
    using newv zv by (simp add: built_row_def built_const_def cache_exponents_nth)
  have "ineq_built R Cn (built @ [?row]) st'"
    unfolding ineq_built_def
  proof (intro conjI allI impI)
    show "ineq_at R Cn (length (built @ [?row])) st'" using at' by simp
  next
    fix c i assume "c < length (built @ [?row])" "i < R"
    then show "coeffs (M (l_ineq st')) i c = fst ((built @ [?row]) ! c) i"
      using oldM frameM rowM by (cases "c = ?k") (simp_all add: nth_append)
  next
    fix c assume "c < length (built @ [?row])"
    then show "elems (v (l_ineq st')) c = snd ((built @ [?row]) ! c)"
      using oldv framev rowv by (cases "c = ?k") (simp_all add: nth_append)
  next
    fix c i assume "length (built @ [?row]) \<le> c"
    then show "coeffs (l_ineq_ipopt st') i c = 0"
      using zM by (simp add: ip' with_col_def)
  next
    fix c assume "length (built @ [?row]) \<le> c"
    then show "elems (v (l_ineq st')) c = 0"
      using zv framev by simp
  qed
  with run show "\<exists>s'. ineq_edge splines lines ki h ?t (?Ekx, ?ndex) (?Fkx, ?ndfx) (?Eky, ?ndey)
        (?Fky, ?ndfy) j st = Inr s' \<and>
      ineq_built R Cn (built @ [?row]) s'"
    by blast
qed

lemma upt3: "[0..<3] = [0, Suc 0, Suc (Suc 0)]"
  by (simp add: upt_rec)

lemma length_edge_rows [simp]:
  "length (edge_rows g h splines start_p start_v lines k t built) = length built + 3"
  by (simp add: edge_rows_def upt3)

lemma length_sample_rows [simp]:
  "length (sample_rows g h splines start_p start_v lines dt k N built) = length built + 3 * N"
  by (induction N) (simp_all add: sample_rows_def)

lemma length_spline_rows [simp]:
  "length (spline_rows g h splines start_p start_v lines dt s built)
     = length built + 3 * n_samples dt s"
  by (simp add: spline_rows_def n_samples_def)

lemma length_fold_spline_rows:
  "length (fold (spline_rows g h splines start_p start_v lines dt) xs built)
     = length built + 3 * (\<Sum>s\<leftarrow>xs. n_samples dt s)"
  by (induction xs arbitrary: built) simp_all

lemma ineq_edges_built:
  assumes wf: "wf_splines splines" and R: "R = GetOptCoeffCount splines"
    and Cn: "Cn = length lines" and ki: "ki < length splines" and k: "length built + 3 \<le> Cn"
  shows "steps_to (ineq_built R Cn built)
           (foldE (ineq_edge splines lines ki h (cache_exponents 6 time)
              (\<lparr>elems = fst (E_by_prev splines ki X (at2 start_v X)), vsize = R\<rparr>,
                 snd (E_by_prev splines ki X (at2 start_v X)))
              (\<lparr>elems = fst (F_by_prev splines ki X (at2 start_v X) (at2 start_p X)), vsize = R\<rparr>,
                 snd (F_by_prev splines ki X (at2 start_v X) (at2 start_p X)))
              (\<lparr>elems = fst (E_by_prev splines ki Y (at2 start_v Y)), vsize = R\<rparr>,
                 snd (E_by_prev splines ki Y (at2 start_v Y)))
              (\<lparr>elems = fst (F_by_prev splines ki Y (at2 start_v Y) (at2 start_p Y)), vsize = R\<rparr>,
                 snd (F_by_prev splines ki Y (at2 start_v Y) (at2 start_p Y)))) [0..<3])
           (ineq_built R Cn (edge_rows 9.81 h splines start_p start_v lines ki time built))"
  unfolding edge_rows_def upt3 fold_simps
  apply (rule steps_to_foldE_Cons, rule ineq_edge_built[OF wf R Cn ki], (insert k, simp)[1])+
  apply (simp add: steps_to_def)
  done

lemma ineq_samples_built:
  assumes wf: "wf_splines splines" and R: "R = GetOptCoeffCount splines"
    and Cn: "Cn = length lines" and ki: "ki < length splines"
    and k: "length built + 3 * N \<le> Cn"
  shows "steps_to (ineq_built R Cn built)
           (foldE (\<lambda>i.
             (let time = real i * dt;
                  t = cache_exponents 6 time
              in foldE (ineq_edge splines lines ki h t
              (\<lparr>elems = fst (E_by_prev splines ki X (at2 start_v X)), vsize = R\<rparr>,
                 snd (E_by_prev splines ki X (at2 start_v X)))
              (\<lparr>elems = fst (F_by_prev splines ki X (at2 start_v X) (at2 start_p X)), vsize = R\<rparr>,
                 snd (F_by_prev splines ki X (at2 start_v X) (at2 start_p X)))
              (\<lparr>elems = fst (E_by_prev splines ki Y (at2 start_v Y)), vsize = R\<rparr>,
                 snd (E_by_prev splines ki Y (at2 start_v Y)))
              (\<lparr>elems = fst (F_by_prev splines ki Y (at2 start_v Y) (at2 start_p Y)), vsize = R\<rparr>,
                 snd (F_by_prev splines ki Y (at2 start_v Y) (at2 start_p Y)))) [0..<3]))
            [0..<N])
           (ineq_built R Cn (sample_rows 9.81 h splines start_p start_v lines dt ki N built))"
  using k
proof (induction N)
  case 0
  show ?case by (simp add: steps_to_def sample_rows_def)
next
  case (Suc N)
  have e: "sample_rows 9.81 h splines start_p start_v lines dt ki (Suc N) built
         = edge_rows 9.81 h splines start_p start_v lines ki (real N * dt)
             (sample_rows 9.81 h splines start_p start_v lines dt ki N built)"
    by (simp add: sample_rows_def)
  show ?case
    unfolding upt_Suc_append[OF le0] e
  proof (rule steps_to_foldE_snoc)
    show "steps_to (ineq_built R Cn built)
           (foldE (\<lambda>i.
             (let time = real i * dt;
                  t = cache_exponents 6 time
              in foldE (ineq_edge splines lines ki h t
              (\<lparr>elems = fst (E_by_prev splines ki X (at2 start_v X)), vsize = R\<rparr>,
                 snd (E_by_prev splines ki X (at2 start_v X)))
              (\<lparr>elems = fst (F_by_prev splines ki X (at2 start_v X) (at2 start_p X)), vsize = R\<rparr>,
                 snd (F_by_prev splines ki X (at2 start_v X) (at2 start_p X)))
              (\<lparr>elems = fst (E_by_prev splines ki Y (at2 start_v Y)), vsize = R\<rparr>,
                 snd (E_by_prev splines ki Y (at2 start_v Y)))
              (\<lparr>elems = fst (F_by_prev splines ki Y (at2 start_v Y) (at2 start_p Y)), vsize = R\<rparr>,
                 snd (F_by_prev splines ki Y (at2 start_v Y) (at2 start_p Y)))) [0..<3]))
            [0..<N])
           (ineq_built R Cn (sample_rows 9.81 h splines start_p start_v lines dt ki N built))"
      using Suc by simp
    show "steps_to (ineq_built R Cn (sample_rows 9.81 h splines start_p start_v lines dt ki N built))
       (let time = real N * dt; t = cache_exponents 6 time
        in foldE (ineq_edge splines lines ki h t
              (\<lparr>elems = fst (E_by_prev splines ki X (at2 start_v X)), vsize = R\<rparr>,
                 snd (E_by_prev splines ki X (at2 start_v X)))
              (\<lparr>elems = fst (F_by_prev splines ki X (at2 start_v X) (at2 start_p X)), vsize = R\<rparr>,
                 snd (F_by_prev splines ki X (at2 start_v X) (at2 start_p X)))
              (\<lparr>elems = fst (E_by_prev splines ki Y (at2 start_v Y)), vsize = R\<rparr>,
                 snd (E_by_prev splines ki Y (at2 start_v Y)))
              (\<lparr>elems = fst (F_by_prev splines ki Y (at2 start_v Y) (at2 start_p Y)), vsize = R\<rparr>,
                 snd (F_by_prev splines ki Y (at2 start_v Y) (at2 start_p Y)))) [0..<3])
       (ineq_built R Cn (edge_rows 9.81 h splines start_p start_v lines ki (real N * dt)
             (sample_rows 9.81 h splines start_p start_v lines dt ki N built)))"
      unfolding Let_def
      using Suc.prems by (intro ineq_edges_built[OF wf R Cn ki]) simp
  qed
qed

lemma ineq_spline_built:
  assumes wf: "wf_splines splines" and R: "R = GetOptCoeffCount splines"
    and Cn: "Cn = length lines" and s: "s \<in> set splines"
    and k: "length built + 3 * n_samples dt s \<le> Cn"
    and fin: "\<not> four_leg_supp s \<longrightarrow> finite_quotient (duration s) dt"
  shows "steps_to (ineq_built R Cn built)
           (ineq_spline splines start_p start_v lines h dt R s)
           (ineq_built R Cn (spline_rows 9.81 h splines start_p start_v lines dt s built))"
proof (cases "four_leg_supp s")
  case True
  then show ?thesis
    by (simp add: steps_to_def ineq_spline_def spline_rows_def)
next
  case False
  let ?k = "spline_id s"
  obtain j where "j < length splines" "splines ! j = s" using s by (auto simp: in_set_conv_nth)
  then have ki: "?k < length splines" using wf_splines_nth[OF wf] by auto
  have N: "n_samples dt s = nat (floor_quotient (duration s) dt)" using False by (simp add: n_samples_def)
  have fq: "finite_quotient (duration s) dt" using fin False by simp
  note loop = ineq_samples_built[OF wf R Cn ki k[unfolded N], where dt = dt and h = h
      and start_v = start_v and start_p = start_p]
  have "ineq_spline splines start_p start_v lines h dt R s =
     foldE (\<lambda>i.
             (let time = real i * dt;
                  t = cache_exponents 6 time
              in foldE (ineq_edge splines lines ?k h t
                   (\<lparr>elems = fst (E_by_prev splines ?k X (at2 start_v X)), vsize = R\<rparr>,
                      snd (E_by_prev splines ?k X (at2 start_v X)))
                   (\<lparr>elems = fst (F_by_prev splines ?k X (at2 start_v X) (at2 start_p X)), vsize = R\<rparr>,
                      snd (F_by_prev splines ?k X (at2 start_v X) (at2 start_p X)))
                   (\<lparr>elems = fst (E_by_prev splines ?k Y (at2 start_v Y)), vsize = R\<rparr>,
                      snd (E_by_prev splines ?k Y (at2 start_v Y)))
                   (\<lparr>elems = fst (F_by_prev splines ?k Y (at2 start_v Y) (at2 start_p Y)), vsize = R\<rparr>,
                      snd (F_by_prev splines ?k Y (at2 start_v Y) (at2 start_p Y)))) [0..<3]))
            [0..<nat (floor_quotient (duration s) dt)]"
    using False ki R
    by (intro ext) (simp add: ineq_spline_def Let_def throwing_def DescribeEByPrev_def DescribeFByPrev_def
         sample_loop_fold[OF fq] del: upt_Suc)
  then show ?thesis
    using loop False by (simp add: spline_rows_def)
qed

lemma ineq_loop_built:
  assumes wf: "wf_splines splines" and R: "R = GetOptCoeffCount splines"
    and Cn: "Cn = length lines" and xs: "set xs \<subseteq> set splines"
    and k: "length built + 3 * (\<Sum>s\<leftarrow>xs. n_samples dt s) \<le> Cn"
    and fin: "\<forall>s\<in>set xs. \<not> four_leg_supp s \<longrightarrow> finite_quotient (duration s) dt"
  shows "steps_to (ineq_built R Cn built)
           (foldE (ineq_spline splines start_p start_v lines h dt R) xs)
           (ineq_built R Cn (fold (spline_rows 9.81 h splines start_p start_v lines dt) xs built))"
  using xs k fin
proof (induction xs arbitrary: built)
  case Nil
  show ?case by (simp add: steps_to_def)
next
  case (Cons s xs)
  show ?case
    unfolding fold_simps
  proof (rule steps_to_foldE_Cons)
    show "steps_to (ineq_built R Cn built) (ineq_spline splines start_p start_v lines h dt R s)
            (ineq_built R Cn (spline_rows 9.81 h splines start_p start_v lines dt s built))"
      using Cons.prems by (intro ineq_spline_built[OF wf R Cn]) simp_all
    show "steps_to (ineq_built R Cn (spline_rows 9.81 h splines start_p start_v lines dt s built))
            (foldE (ineq_spline splines start_p start_v lines h dt R) xs)
            (ineq_built R Cn (fold (spline_rows 9.81 h splines start_p start_v lines dt) xs
               (spline_rows 9.81 h splines start_p start_v lines dt s built)))"
      using Cons.prems by (intro Cons.IH) simp_all
  qed
qed

lemma CreateInequalityContraints_built:
  assumes wf: "wf_splines splines"
    and len: "length lines = 3 * (\<Sum>s\<leftarrow>splines. n_samples dt s)"
    and fin: "\<forall>s\<in>set splines. \<not> four_leg_supp s \<longrightarrow> finite_quotient (duration s) dt"
  shows "\<exists>st. CreateInequalityContraints splines start_p start_v lines h dt = Inr st \<and>
           ineq_built (GetOptCoeffCount splines) (length lines)
             (all_rows 9.81 h splines start_p start_v lines dt) st"
proof -
  let ?R = "GetOptCoeffCount splines" and ?Cn = "length lines"
  let ?st0 = "\<lparr>l_ineq = MatVec_new ?R ?Cn, l_ineq_ipopt = M (MatVec_new ?R ?Cn),
              l_ineq_ipopt_vx = v (MatVec_new ?R ?Cn), l_ineq_ipopt_vy = v (MatVec_new ?R ?Cn),
              l_c = 0\<rparr>"
  have init: "ineq_built ?R ?Cn [] ?st0"
    by (simp add: ineq_built_def ineq_at_def dims_ok_def)
  have "steps_to (ineq_built ?R ?Cn [])
           (foldE (ineq_spline splines start_p start_v lines h dt ?R) splines)
           (ineq_built ?R ?Cn (fold (spline_rows 9.81 h splines start_p start_v lines dt) splines []))"
    using len fin by (intro ineq_loop_built[OF wf refl refl]) simp_all
  from steps_toD[OF this init] show ?thesis
    by (simp add: CreateInequalityContraints_def Let_def all_rows_def)
qed

section \<open>The rows against the ZMP condition\<close>

text \<open>The linear part and the constant part of the ZMP are its affine expression: at every
  coefficient vector they give \<open>position(t) - (h / (g + z_acc)) \<cdot> acceleration(t)\<close>.\<close>

lemma dot_zmp_own:
  assumes ki: "ki < length splines" and dm: "dm < 2"
  shows "dot (GetOptCoeffCount splines) (zmp_own g h ki dm t) x =
           (t ^ 5 - h / (g + 0) * (20 * t ^ 3)) * x (var_index ki dm A)
         + (t ^ 4 - h / (g + 0) * (12 * t ^ 2)) * x (var_index ki dm B)
         + (t ^ 3 - h / (g + 0) * (6 * t)) * x (var_index ki dm C)
         + (t ^ 2 - h / (g + 0) * 2) * x (var_index ki dm D)"
proof -
  let ?S = "{var_index ki dm A, var_index ki dm B, var_index ki dm C, var_index ki dm D}"
  have sub: "?S \<subseteq> {..<GetOptCoeffCount splines}"
    using ki dm by (auto simp: GetOptCoeffCount_def var_index_def idx)
  have zero: "\<forall>i\<in>{..<GetOptCoeffCount splines} - ?S. zmp_own g h ki dm t i * x i = 0"
    by (simp add: zmp_own_def)
  have "dot (GetOptCoeffCount splines) (zmp_own g h ki dm t) x
      = (\<Sum>i\<in>?S. zmp_own g h ki dm t i * x i)"
    unfolding dot_def by (rule sum.mono_neutral_right[OF _ sub zero]) simp
  also have "\<dots> = (t ^ 5 - h / (g + 0) * (20 * t ^ 3)) * x (var_index ki dm A)
         + (t ^ 4 - h / (g + 0) * (12 * t ^ 2)) * x (var_index ki dm B)
         + (t ^ 3 - h / (g + 0) * (6 * t)) * x (var_index ki dm C)
         + (t ^ 2 - h / (g + 0) * 2) * x (var_index ki dm D)"
    by (simp add: zmp_own_def var_index_def idx)
  finally show ?thesis .
qed

lemma zmp_affine_expression:
  assumes ki: "ki < length splines" and dm: "dm < 2"
  shows "zmp_value g h splines start_p start_v ki dm t x =
           dot (GetOptCoeffCount splines) (zmp_lin g h splines start_p start_v ki dm t) x
             + zmp_const splines start_p start_v ki dm t"
proof -
  let ?n = "GetOptCoeffCount splines"
  let ?E = "fst (E_by_prev splines ki dm (at2 start_v dm))"
  let ?F = "fst (F_by_prev splines ki dm (at2 start_v dm) (at2 start_p dm))"
  have "dot ?n (zmp_lin g h splines start_p start_v ki dm t) x
      = dot ?n (zmp_own g h ki dm t) x + t * dot ?n ?E x + dot ?n ?F x"
    by (simp add: dot_def zmp_lin_def algebra_simps sum.distrib sum_distrib_left)
  then show ?thesis
    by (simp add: zmp_value_def Let_def dot_zmp_own[OF ki dm] zmp_const_def quintic_pos_def
        quintic_acc_def algebra_simps)
qed

lemma built_rows_nth:
  assumes "ineq_built R Cn built st" "c < length built"
  shows "elems (v (l_ineq st)) c = snd (built ! c)"
    and "i < R \<Longrightarrow> coeffs (M (l_ineq st)) i c = fst (built ! c) i"
  using assms by (simp_all add: ineq_built_def)

text \<open>The index of a row: the rows of the segments before \<open>k\<close>, then three rows for each
  earlier sample of \<open>k\<close>, then the edge.  At that index the builder has written the row of
  segment \<open>k\<close>, sample \<open>i\<close> and the edge the list holds there.\<close>

lemma edge_rows_eq:
  "edge_rows g h splines start_p start_v lines k t built =
     built @ [built_row g h splines start_p start_v k t (lines ! length built),
              built_row g h splines start_p start_v k t (lines ! Suc (length built)),
              built_row g h splines start_p start_v k t (lines ! Suc (Suc (length built)))]"
  by (simp add: edge_rows_def upt3)

lemma sample_rows_prefix:
  "c < length built \<Longrightarrow>
   sample_rows g h splines start_p start_v lines dt k N built ! c = built ! c"
proof (induction N)
  case 0
  show ?case by (simp add: sample_rows_def)
next
  case (Suc N)
  have e: "sample_rows g h splines start_p start_v lines dt k (Suc N) built
         = edge_rows g h splines start_p start_v lines k (real N * dt)
             (sample_rows g h splines start_p start_v lines dt k N built)"
    by (simp add: sample_rows_def)
  show ?case
    using Suc by (simp add: e edge_rows_eq nth_append)
qed

lemma spline_rows_prefix:
  "c < length built \<Longrightarrow>
   spline_rows g h splines start_p start_v lines dt s built ! c = built ! c"
  by (simp add: spline_rows_def sample_rows_prefix)

lemma fold_spline_rows_prefix:
  "c < length built \<Longrightarrow>
   fold (spline_rows g h splines start_p start_v lines dt) xs built ! c = built ! c"
proof (induction xs arbitrary: built)
  case Nil
  show ?case by simp
next
  case (Cons s xs)
  have "c < length (spline_rows g h splines start_p start_v lines dt s built)"
    using Cons.prems by simp
  from Cons.IH[OF this] show ?case
    using Cons.prems by (simp add: spline_rows_prefix)
qed

lemma sample_rows_nth:
  assumes "i < N" "j < 3"
  shows "sample_rows g h splines start_p start_v lines dt k N built ! (length built + 3 * i + j)
       = built_row g h splines start_p start_v k (real i * dt) (lines ! (length built + 3 * i + j))"
  using assms(1)
proof (induction N)
  case 0
  then show ?case by simp
next
  case (Suc N)
  let ?B = "sample_rows g h splines start_p start_v lines dt k N built"
  have e: "sample_rows g h splines start_p start_v lines dt k (Suc N) built
         = edge_rows g h splines start_p start_v lines k (real N * dt) ?B"
    by (simp add: sample_rows_def)
  show ?case
  proof (cases "i < N")
    case True
    then have "length built + 3 * i + j < length ?B" using assms(2) by simp
    then show ?thesis
      using Suc.IH[OF True] by (simp add: e edge_rows_eq nth_append)
  next
    case False
    then have i: "i = N" using Suc.prems by simp
    have "j = 0 \<or> j = 1 \<or> j = 2" using assms(2) by auto
    then show ?thesis
      by (auto simp: e edge_rows_eq nth_append i)
  qed
qed

lemma all_rows_nth:
  assumes wf: "wf_splines splines" and k: "k < length splines"
    and s: "\<not> four_leg_supp (splines ! k)"
    and i: "i < nat (floor_quotient (duration (splines ! k)) dt)" and j: "j < 3"
  shows "all_rows g h splines start_p start_v lines dt
           ! (3 * (\<Sum>s\<leftarrow>take k splines. n_samples dt s) + 3 * i + j)
       = built_row g h splines start_p start_v k (real i * dt)
           (lines ! (3 * (\<Sum>s\<leftarrow>take k splines. n_samples dt s) + 3 * i + j))"
proof -
  let ?f = "spline_rows g h splines start_p start_v lines dt"
  let ?B = "fold ?f (take k splines) []"
  let ?c = "3 * (\<Sum>s\<leftarrow>take k splines. n_samples dt s) + 3 * i + j"
  have lenB: "length ?B = 3 * (\<Sum>s\<leftarrow>take k splines. n_samples dt s)"
    by (simp add: length_fold_spline_rows)
  have split: "splines = take k splines @ splines ! k # drop (Suc k) splines"
    using k by (simp add: id_take_nth_drop)
  have "all_rows g h splines start_p start_v lines dt
      = fold ?f (drop (Suc k) splines) (?f (splines ! k) ?B)"
    unfolding all_rows_def by (subst split) (simp del: append_take_drop_id)
  moreover have id: "spline_id (splines ! k) = k" using wf_splines_nth[OF wf k] .
  have row: "?f (splines ! k) ?B ! ?c
      = built_row g h splines start_p start_v k (real i * dt) (lines ! ?c)"
    using sample_rows_nth[OF i j, of g h splines start_p start_v lines dt k ?B] s
    by (simp add: spline_rows_def id lenB)
  have "?c < length (?f (splines ! k) ?B)"
    using i j s by (simp add: lenB n_samples_def)
  from fold_spline_rows_prefix[OF this] row
  have "fold ?f (drop (Suc k) splines) (?f (splines ! k) ?B) ! ?c
      = built_row g h splines start_p start_v k (real i * dt) (lines ! ?c)"
    by simp
  ultimately show ?thesis by simp
qed

lemma inequality_row_linear_part:
  assumes wf: "wf_splines splines"
    and len: "length lines = 3 * (\<Sum>s\<leftarrow>splines. n_samples dt s)"
    and fin: "\<forall>s\<in>set splines. \<not> four_leg_supp s \<longrightarrow> finite_quotient (duration s) dt"
    and k: "k < length splines" and s: "\<not> four_leg_supp (splines ! k)"
    and i: "i < nat (floor_quotient (duration (splines ! k)) dt)" and j: "j < 3"
    and c: "c = 3 * (\<Sum>s\<leftarrow>take k splines. n_samples dt s) + 3 * i + j"
  shows "\<exists>st. CreateInequalityContraints splines start_p start_v lines h dt = Inr st \<and>
           c < length lines \<and>
           (\<forall>x. dot (GetOptCoeffCount splines) (\<lambda>n. coeffs (M (l_ineq st)) n c) x =
                  p (coeff (lines ! c))
                    * dot (GetOptCoeffCount splines)
                        (zmp_lin 9.81 h splines start_p start_v k X (real i * dt)) x
                + q (coeff (lines ! c))
                    * dot (GetOptCoeffCount splines)
                        (zmp_lin 9.81 h splines start_p start_v k Y (real i * dt)) x) \<and>
           elems (v (l_ineq st)) c =
             p (coeff (lines ! c)) * built_const splines start_p start_v k X
               + q (coeff (lines ! c)) * built_const splines start_p start_v k Y
               + (r (coeff (lines ! c)) - s_margin (lines ! c))"
proof -
  obtain st where st: "CreateInequalityContraints splines start_p start_v lines h dt = Inr st"
    and b: "ineq_built (GetOptCoeffCount splines) (length lines)
              (all_rows 9.81 h splines start_p start_v lines dt) st"
    using CreateInequalityContraints_built[OF wf len fin] by blast
  have la: "length (all_rows 9.81 h splines start_p start_v lines dt) = length lines"
    using len by (simp add: all_rows_def length_fold_spline_rows)
  have "(\<Sum>s\<leftarrow>splines. n_samples dt s)
      = (\<Sum>s\<leftarrow>take k splines. n_samples dt s) + n_samples dt (splines ! k)
        + (\<Sum>s\<leftarrow>drop (Suc k) splines. n_samples dt s)"
    using k by (subst id_take_nth_drop[OF k]) (simp del: append_take_drop_id)
  then have cl: "c < length lines"
    using i j s by (simp add: c len n_samples_def)
  have row: "all_rows 9.81 h splines start_p start_v lines dt ! c
      = built_row 9.81 h splines start_p start_v k (real i * dt) (lines ! c)"
    unfolding c by (rule all_rows_nth[OF wf k s i j])
  have lin: "coeffs (M (l_ineq st)) n c =
      p (coeff (lines ! c)) * zmp_lin 9.81 h splines start_p start_v k X (real i * dt) n
      + q (coeff (lines ! c)) * zmp_lin 9.81 h splines start_p start_v k Y (real i * dt) n"
    if "n < GetOptCoeffCount splines" for n
    using built_rows_nth(2)[OF b _ that, of c] cl la unfolding row by (simp add: built_row_def)
  have "dot (GetOptCoeffCount splines) (\<lambda>n. coeffs (M (l_ineq st)) n c) x =
                  p (coeff (lines ! c))
                    * dot (GetOptCoeffCount splines)
                        (zmp_lin 9.81 h splines start_p start_v k X (real i * dt)) x
                + q (coeff (lines ! c))
                    * dot (GetOptCoeffCount splines)
                        (zmp_lin 9.81 h splines start_p start_v k Y (real i * dt)) x" for x
    by (simp add: dot_def lin sum_distrib_left sum.distrib[symmetric] algebra_simps)
  moreover have "elems (v (l_ineq st)) c =
             p (coeff (lines ! c)) * built_const splines start_p start_v k X
               + q (coeff (lines ! c)) * built_const splines start_p start_v k Y
               + (r (coeff (lines ! c)) - s_margin (lines ! c))"
    using built_rows_nth(1)[OF b, of c] cl la unfolding row by (simp add: built_row_def)
  ultimately show ?thesis using st cl by blast
qed


lemma E_by_prev_const: "snd (E_by_prev splines k dm v0) = v0"
  by (induction k) (simp_all add: Let_def split_beta)

lemma built_const_eq:
  "built_const splines start_p start_v k dm =
     zmp_const splines start_p start_v k dm t + (1 - t) * at2 start_v dm"
  by (simp add: built_const_def zmp_const_def E_by_prev_const algebra_simps)

lemma inequality_row_value:
  assumes wf: "wf_splines splines"
    and len: "length lines = 3 * (\<Sum>s\<leftarrow>splines. n_samples dt s)"
    and fin: "\<forall>s\<in>set splines. \<not> four_leg_supp s \<longrightarrow> finite_quotient (duration s) dt"
    and k: "k < length splines" and s: "\<not> four_leg_supp (splines ! k)"
    and i: "i < nat (floor_quotient (duration (splines ! k)) dt)" and j: "j < 3"
    and c: "c = 3 * (\<Sum>s\<leftarrow>take k splines. n_samples dt s) + 3 * i + j"
  shows "\<exists>st. CreateInequalityContraints splines start_p start_v lines h dt = Inr st \<and>
           (\<forall>x. dot (GetOptCoeffCount splines) (\<lambda>n. coeffs (M (l_ineq st)) n c) x
                  + elems (v (l_ineq st)) c =
                p (coeff (lines ! c)) * zmp_value 9.81 h splines start_p start_v k X (real i * dt) x
                + q (coeff (lines ! c)) * zmp_value 9.81 h splines start_p start_v k Y (real i * dt) x
                + (r (coeff (lines ! c)) - s_margin (lines ! c))
                + (1 - real i * dt)
                  * (p (coeff (lines ! c)) * at2 start_v X + q (coeff (lines ! c)) * at2 start_v Y))"
proof -
  from inequality_row_linear_part[OF assms, of start_p start_v h]
  obtain st where st: "CreateInequalityContraints splines start_p start_v lines h dt = Inr st"
    and lin: "\<And>x. dot (GetOptCoeffCount splines) (\<lambda>n. coeffs (M (l_ineq st)) n c) x =
                  p (coeff (lines ! c))
                    * dot (GetOptCoeffCount splines)
                        (zmp_lin 9.81 h splines start_p start_v k X (real i * dt)) x
                + q (coeff (lines ! c))
                    * dot (GetOptCoeffCount splines)
                        (zmp_lin 9.81 h splines start_p start_v k Y (real i * dt)) x"
    and con: "elems (v (l_ineq st)) c =
             p (coeff (lines ! c)) * built_const splines start_p start_v k X
               + q (coeff (lines ! c)) * built_const splines start_p start_v k Y
               + (r (coeff (lines ! c)) - s_margin (lines ! c))"
    by blast
  have zx: "zmp_value g h splines start_p start_v k X t x =
           dot (GetOptCoeffCount splines) (zmp_lin g h splines start_p start_v k X t) x
             + zmp_const splines start_p start_v k X t" for g t x
    by (rule zmp_affine_expression[OF k]) (simp add: idx)
  have zy: "zmp_value g h splines start_p start_v k Y t x =
           dot (GetOptCoeffCount splines) (zmp_lin g h splines start_p start_v k Y t) x
             + zmp_const splines start_p start_v k Y t" for g t x
    by (rule zmp_affine_expression[OF k]) (simp add: idx)
  show ?thesis
    using st
    by (intro exI[of _ st])
       (simp add: lin con zx zy built_const_eq[where t = "real i * dt"] algebra_simps)
qed

text \<open>
  Claim C3.  The linear part of every row the builder writes is \<open>p\<close> times the affine
  expression of \<open>zmp_x(t)\<close> plus \<open>q\<close> times that of \<open>zmp_y(t)\<close>
  (\<open>inequality_row_linear_part\<close>).  The constant entry is not the one the claim states:
  line 363 multiplies the constant of \<open>E\<close> by \<open>t[0] = 1\<close> where the position needs
  \<open>t[1] = t\<close>, as the equality builder has it (line 231), so the row is off by
  \<open>(1 - t) (p v\<^sub>x + q v\<^sub>y)\<close> for the start velocity \<open>v\<close> (\<open>inequality_row_value\<close>).  One
  segment of duration \<open>1/5\<close> sampled every \<open>1/10\<close>, starting at the origin with velocity
  \<open>(1, 0)\<close>, and the edge \<open>x \<ge> 0\<close>: at the sample \<open>t = 1/10\<close> (row 3) the constant part of
  \<open>zmp_x\<close> is \<open>1/10\<close>, and the builder writes \<open>1\<close>.
\<close>

theorem inequality_constant_entry_misses_sample_time:
  "\<exists>st. CreateInequalityContraints
          [\<lparr>spline_id = 0, duration = 1 / 5, four_leg_supp = False, step = 0\<rparr>]
          (0, 0) (1, 0) [edge_x, edge_x, edge_x, edge_x, edge_x, edge_x] (1 / 2) (1 / 10) = Inr st \<and>
        elems (v (l_ineq st)) 3 = 1 \<and>
        p (coeff edge_x)
          * zmp_const [\<lparr>spline_id = 0, duration = 1 / 5, four_leg_supp = False, step = 0\<rparr>]
              (0, 0) (1, 0) 0 X (1 / 10)
        + q (coeff edge_x)
          * zmp_const [\<lparr>spline_id = 0, duration = 1 / 5, four_leg_supp = False, step = 0\<rparr>]
              (0, 0) (1, 0) 0 Y (1 / 10)
        + (r (coeff edge_x) - s_margin edge_x) = 1 / 10"
proof -
  let ?ss = "[\<lparr>spline_id = 0, duration = 1 / 5, four_leg_supp = False, step = 0\<rparr>]"
  let ?lines = "[edge_x, edge_x, edge_x, edge_x, edge_x, edge_x]"
  have wf: "wf_splines ?ss" by (simp add: wf_splines_def)
  have fq: "floor_quotient (1 / 5) (1 / 10) = 2" by (simp add: double_eval)
  have fin: "\<forall>s\<in>set ?ss. \<not> four_leg_supp s \<longrightarrow> finite_quotient (duration s) (1 / 10)"
    by (simp add: double_eval)
  have len: "length ?lines = 3 * (\<Sum>s\<leftarrow>?ss. n_samples (1 / 10) s)"
    by (simp add: n_samples_def fq)
  obtain st where st: "CreateInequalityContraints ?ss (0, 0) (1, 0) ?lines (1 / 2) (1 / 10) = Inr st"
    and b: "ineq_built (GetOptCoeffCount ?ss) (length ?lines)
              (all_rows 9.81 (1 / 2) ?ss (0, 0) (1, 0) ?lines (1 / 10)) st"
    using CreateInequalityContraints_built[OF wf len fin] by blast
  have rows: "all_rows 9.81 (1 / 2) ?ss (0, 0) (1, 0) ?lines (1 / 10) ! 3
        = built_row 9.81 (1 / 2) ?ss (0, 0) (1, 0) 0 (1 / 10) edge_x"
  proof -
    have u2: "[0..<2] = [0, Suc 0]" by (simp add: upt_rec)
    show ?thesis
      by (simp add: all_rows_def spline_rows_def sample_rows_def edge_rows_def upt3 u2 nth_append fq)
  qed
  have l: "3 < length (all_rows 9.81 (1 / 2) ?ss (0, 0) (1, 0) ?lines (1 / 10))"
    by (simp add: all_rows_def n_samples_def fq)
  have "elems (v (l_ineq st)) 3 = snd (built_row 9.81 (1 / 2) ?ss (0, 0) (1, 0) 0 (1 / 10) edge_x)"
    using built_rows_nth(1)[OF b l] by (simp only: rows)
  then have "elems (v (l_ineq st)) 3 = 1"
    by (simp add: built_row_def built_const_def edge_x_def idx)
  moreover have "p (coeff edge_x) * zmp_const ?ss (0, 0) (1, 0) 0 X (1 / 10)
        + q (coeff edge_x) * zmp_const ?ss (0, 0) (1, 0) 0 Y (1 / 10)
        + (r (coeff edge_x) - s_margin edge_x) = 1 / 10"
    by (simp add: zmp_const_def edge_x_def idx)
  ultimately show ?thesis using st by blast
qed

lemma wf_splines_ids: "wf_splines splines \<Longrightarrow> \<forall>s\<in>set splines. spline_id s < length splines"
  by (auto simp: in_set_conv_nth wf_splines_nth)

lemma SetupQpMatrices_ok:
  assumes ne: "m_zmp_splines st \<noteq> []" and wf: "wf_splines (m_zmp_splines st)"
    and ff: "FromFootholds start_stance steps margins = (tr, final_stance)"
    and st: "\<forall>s\<in>set (m_zmp_splines st). \<not> four_leg_supp s \<longrightarrow> step s < length tr"
    and du: "\<forall>s\<in>set (m_zmp_splines st). \<not> four_leg_supp s \<longrightarrow>
               0 \<le> duration s \<and> duration s / double_literal 0.1 \<le> 2 ^ 31 - 1"
  shows "\<exists>lines l st'.
      LineForConstraint CalcLines (m_zmp_splines st) tr (double_literal 0.1) = Inr lines \<and>
      length lines = 3 * (\<Sum>s\<leftarrow>m_zmp_splines st. n_samples (double_literal 0.1) s) \<and>
      CreateInequalityContraints (m_zmp_splines st) start_cog_p start_cog_v lines height_robot
        (double_literal 0.1) = Inr l \<and>
      SetupQpMatrices FromFootholds CalcLines start_cog_p start_cog_v start_stance steps weight
        margins height_robot st = Inr st' \<and>
      m_lines_for_constraint st' = lines \<and> m_ineq st' = l_ineq l \<and>
      ineq_built (GetOptCoeffCount (m_zmp_splines st)) (length lines)
        (all_rows 9.81 height_robot (m_zmp_splines st) start_cog_p start_cog_v lines
           (double_literal 0.1)) l"
proof -
  let ?ss = "m_zmp_splines st" and ?dt = "double_literal 0.1"
  have dt: "0 < ?dt" by (simp add: double_literal_tenth)
  have fit: "\<forall>s\<in>set ?ss. \<not> four_leg_supp s \<longrightarrow>
          finite_quotient (duration s) ?dt \<and> int_quotient (duration s) ?dt"
    using du quotient_fits[OF dt] by blast
  then have f1: "\<forall>s\<in>set ?ss. \<not> four_leg_supp s \<longrightarrow> int_quotient (duration s) ?dt"
    and f2: "\<forall>s\<in>set ?ss. \<not> four_leg_supp s \<longrightarrow> finite_quotient (duration s) ?dt"
    by blast+
  have ids: "\<forall>s\<in>set ?ss. spline_id s < length ?ss" using wf_splines_ids[OF wf] .
  obtain cf where cf: "CreateMinAccCostFunction ?ss weight = Inr cf"
    using CreateMinAccCostFunction_symmetric[OF ids] by blast
  have "spline_id (last ?ss) < length ?ss" using ne ids by simp
  from CreateEqualityContraints_ok[OF ne this]
  obtain ec where ec: "CreateEqualityContraints ?ss start_cog_p start_cog_v
        (div2 (fold (\<lambda>leg end_cog. add2 end_cog (segment_xy (foot_p (final_stance leg)))) LegIDArray (0, 0)) 4)
         = Inr ec"
    by blast
  obtain lines where lines: "LineForConstraint CalcLines ?ss tr ?dt = Inr lines"
      "length lines = 3 * (\<Sum>s\<leftarrow>?ss. n_samples ?dt s)"
    using LineForConstraint_length[OF st f1] by blast
  obtain l where l: "CreateInequalityContraints ?ss start_cog_p start_cog_v lines height_robot ?dt = Inr l"
      "ineq_built (GetOptCoeffCount ?ss) (length lines)
        (all_rows 9.81 height_robot ?ss start_cog_p start_cog_v lines ?dt) l"
    using CreateInequalityContraints_built[OF wf lines(2) f2] by blast
  have "SetupQpMatrices FromFootholds CalcLines start_cog_p start_cog_v start_stance steps weight
        margins height_robot st
      = Inr ((store_ipopt l (st\<lparr>m_cf := cf, m_footholds := steps, m_eq := ec,
                m_lines_for_constraint := lines\<rparr>))\<lparr>m_ineq := l_ineq l\<rparr>)"
    using ne by (simp add: SetupQpMatrices_def throwing_def cf ff ec lines l Let_def)
  then show ?thesis
    using lines l by (simp add: store_ipopt_def)
qed

text \<open>
  Claim C10.  \<open>SetupQpMatrices\<close> takes no sampling interval and the inequality builder no
  gravity constant.  For a non-empty spline sequence whose ids are the positions, with
  support triangles for every step used, non-negative durations whose quotient by the
  sampling interval is at most \<open>2\<^sup>3\<^sup>1 - 1\<close> and fewer than \<open>2\<^sup>3\<^sup>1\<close> rows in all (the node count
  and the row counter are of type \<open>int\<close>), \<open>SetupQpMatrices\<close> returns, and the edge list and
  the inequality constraints it stores are those built with \<open>dt = 0.1\<close>, the \<open>double\<close> that
  the literal denotes.  With whatever positive \<open>dt\<close> the inequality builder is called,
  under the same conditions on the durations and with an edge list that has the length
  of the rows to build, the linear part of every row is the ZMP row with \<open>g = 9.81\<close>.
\<close>

theorem setup_fixes_sampling_interval_and_gravity:
  assumes "m_zmp_splines st \<noteq> []" and "wf_splines (m_zmp_splines st)"
    and "FromFootholds start_stance steps margins = (tr, final_stance)"
    and "\<forall>s\<in>set (m_zmp_splines st). \<not> four_leg_supp s \<longrightarrow> step s < length tr"
    and "\<forall>s\<in>set (m_zmp_splines st). \<not> four_leg_supp s \<longrightarrow>
           0 \<le> duration s \<and> duration s / double_literal 0.1 \<le> 2 ^ 31 - 1"
    and "3 * (\<Sum>s\<leftarrow>m_zmp_splines st. n_samples (double_literal 0.1) s) < 2 ^ 31"
  shows "(\<exists>lines l st'.
      LineForConstraint CalcLines (m_zmp_splines st) tr (double_literal 0.1) = Inr lines \<and>
      CreateInequalityContraints (m_zmp_splines st) start_cog_p start_cog_v lines height_robot
        (double_literal 0.1) = Inr l \<and>
      SetupQpMatrices FromFootholds CalcLines start_cog_p start_cog_v start_stance steps weight
        margins height_robot st = Inr st' \<and>
      m_lines_for_constraint st' = lines \<and> m_ineq st' = l_ineq l \<and>
      (\<forall>c<length lines. \<forall>i<GetOptCoeffCount (m_zmp_splines st).
         coeffs (M (m_ineq st')) i c =
           fst (all_rows 9.81 height_robot (m_zmp_splines st) start_cog_p start_cog_v lines
                  (double_literal 0.1) ! c) i)) \<and>
    double_literal 0.1 = 3602879701896397 / 36028797018963968 \<and>
    (\<forall>dt lines.
       0 < dt \<longrightarrow>
       (\<forall>s\<in>set (m_zmp_splines st). \<not> four_leg_supp s \<longrightarrow>
          0 \<le> duration s \<and> duration s / dt \<le> 2 ^ 31 - 1) \<longrightarrow>
       length lines = 3 * (\<Sum>s\<leftarrow>m_zmp_splines st. n_samples dt s) \<longrightarrow>
       length lines < 2 ^ 31 \<longrightarrow>
       (\<exists>l. CreateInequalityContraints (m_zmp_splines st) start_cog_p start_cog_v lines height_robot dt
               = Inr l \<and>
            (\<forall>c<length lines. \<forall>i<GetOptCoeffCount (m_zmp_splines st).
               coeffs (M (l_ineq l)) i c =
                 fst (all_rows 9.81 height_robot (m_zmp_splines st) start_cog_p start_cog_v lines dt ! c) i)))"
proof (intro conjI allI impI)
  let ?dt = "double_literal 0.1"
  from SetupQpMatrices_ok[where FromFootholds = FromFootholds, OF assms(1-5)]
  obtain lines l st' where
      1: "LineForConstraint CalcLines (m_zmp_splines st) tr ?dt = Inr lines"
      "length lines = 3 * (\<Sum>s\<leftarrow>m_zmp_splines st. n_samples ?dt s)"
      "CreateInequalityContraints (m_zmp_splines st) start_cog_p start_cog_v lines height_robot ?dt
        = Inr l"
      "SetupQpMatrices FromFootholds CalcLines start_cog_p start_cog_v start_stance steps weight
        margins height_robot st = Inr st'"
      "m_lines_for_constraint st' = lines" "m_ineq st' = l_ineq l"
      and b: "ineq_built (GetOptCoeffCount (m_zmp_splines st)) (length lines)
        (all_rows 9.81 height_robot (m_zmp_splines st) start_cog_p start_cog_v lines ?dt) l"
    by blast
  have len: "length (all_rows 9.81 height_robot (m_zmp_splines st) start_cog_p start_cog_v lines ?dt)
      = length lines"
    using 1(2) by (simp add: all_rows_def length_fold_spline_rows)
  show "\<exists>lines l st'.
      LineForConstraint CalcLines (m_zmp_splines st) tr ?dt = Inr lines \<and>
      CreateInequalityContraints (m_zmp_splines st) start_cog_p start_cog_v lines height_robot ?dt
        = Inr l \<and>
      SetupQpMatrices FromFootholds CalcLines start_cog_p start_cog_v start_stance steps weight
        margins height_robot st = Inr st' \<and>
      m_lines_for_constraint st' = lines \<and> m_ineq st' = l_ineq l \<and>
      (\<forall>c<length lines. \<forall>i<GetOptCoeffCount (m_zmp_splines st).
         coeffs (M (m_ineq st')) i c =
           fst (all_rows 9.81 height_robot (m_zmp_splines st) start_cog_p start_cog_v lines ?dt ! c) i)"
    using 1 built_rows_nth(2)[OF b] len by (intro exI[of _ lines] exI[of _ l] exI[of _ st']) simp
next
  show "double_literal 0.1 = 3602879701896397 / 36028797018963968"
    by (rule double_literal_tenth)
next
  fix dt :: real and lines :: "TrLine list"
  assume dt: "0 < dt"
    and du: "\<forall>s\<in>set (m_zmp_splines st). \<not> four_leg_supp s \<longrightarrow>
               0 \<le> duration s \<and> duration s / dt \<le> 2 ^ 31 - 1"
    and len: "length lines = 3 * (\<Sum>s\<leftarrow>m_zmp_splines st. n_samples dt s)"
  have fin: "\<forall>s\<in>set (m_zmp_splines st). \<not> four_leg_supp s \<longrightarrow> finite_quotient (duration s) dt"
    using du quotient_fits[OF dt] by blast
  from CreateInequalityContraints_built[OF assms(2) len fin]
  obtain l where l: "CreateInequalityContraints (m_zmp_splines st) start_cog_p start_cog_v lines height_robot dt = Inr l"
      and b: "ineq_built (GetOptCoeffCount (m_zmp_splines st)) (length lines)
        (all_rows 9.81 height_robot (m_zmp_splines st) start_cog_p start_cog_v lines dt) l"
    by blast
  have "length (all_rows 9.81 height_robot (m_zmp_splines st) start_cog_p start_cog_v lines dt)
      = length lines"
    using len by (simp add: all_rows_def length_fold_spline_rows)
  then show "\<exists>l. CreateInequalityContraints (m_zmp_splines st) start_cog_p start_cog_v lines height_robot dt
               = Inr l \<and>
            (\<forall>c<length lines. \<forall>i<GetOptCoeffCount (m_zmp_splines st).
               coeffs (M (l_ineq l)) i c =
                 fst (all_rows 9.81 height_robot (m_zmp_splines st) start_cog_p start_cog_v lines dt ! c) i)"
    using l built_rows_nth(2)[OF b] by (intro exI[of _ l]) simp
qed

theorem setup_fixes_sampling_interval_and_gravity_witness:
  "m_zmp_splines (blank_optimizer [\<lparr>spline_id = 0, duration = 1 / 2, four_leg_supp = False, step = 0\<rparr>]) \<noteq> [] \<and>
   wf_splines (m_zmp_splines (blank_optimizer [\<lparr>spline_id = 0, duration = 1 / 2, four_leg_supp = False, step = 0\<rparr>])) \<and>
   (\<exists>st'. SetupQpMatrices one_triangle same_edges (0, 0) (1, 0) (stance_at 0 0) [] (1, 1) () (1 / 2)
            (blank_optimizer [\<lparr>spline_id = 0, duration = 1 / 2, four_leg_supp = False, step = 0\<rparr>])
           = Inr st' \<and>
         m_lines_for_constraint st' =
           [edge_x, edge_x, edge_x, edge_x, edge_x, edge_x, edge_x, edge_x, edge_x, edge_x,
            edge_x, edge_x, edge_x, edge_x, edge_x] \<and>
         coeffs (M (m_ineq st')) 3 0 = - ((1 / 2) / 9.81 * 2))"
proof -
  let ?ss = "[\<lparr>spline_id = 0, duration = 1 / 2, four_leg_supp = False, step = 0\<rparr>]"
  let ?st = "blank_optimizer ?ss"
  let ?lines = "[edge_x, edge_x, edge_x, edge_x, edge_x, edge_x, edge_x, edge_x, edge_x, edge_x,
            edge_x, edge_x, edge_x, edge_x, edge_x]"
  let ?dt = "double_literal 0.1"
  have dt: "?dt = 3602879701896397 / 36028797018963968" by (rule double_literal_tenth)
  have fq: "floor_quotient (1 / 2) ?dt = 5" unfolding dt by (simp add: double_eval)
  have iq: "double_to_int (double_floor (double_div (1 / 2) ?dt)) = Some 5"
    unfolding dt by (simp add: double_eval)
  have m: "m_zmp_splines ?st = ?ss" by (simp add: blank_optimizer_def)
  have 1: "m_zmp_splines ?st \<noteq> []" by (simp add: m)
  have 2: "wf_splines (m_zmp_splines ?st)" by (simp add: m wf_splines_def)
  have 3: "one_triangle (stance_at 0 0) [] () = ([edge_x], stance_at 3 5)"
    by (simp add: one_triangle_def)
  have 4: "\<forall>s\<in>set (m_zmp_splines ?st). \<not> four_leg_supp s \<longrightarrow> step s < length [edge_x]"
    by (simp add: m)
  have 5: "\<forall>s\<in>set (m_zmp_splines ?st). \<not> four_leg_supp s \<longrightarrow>
             0 \<le> duration s \<and> duration s / ?dt \<le> 2 ^ 31 - 1"
    by (simp add: m dt)
  have 6: "3 * (\<Sum>s\<leftarrow>m_zmp_splines ?st. n_samples ?dt s) < 2 ^ 31"
    by (simp add: m n_samples_def fq)
  have u5: "[0..<5] = [0, Suc 0, 2, 3, 4]" by (simp add: upt_rec)
  have L: "LineForConstraint same_edges ?ss [edge_x] ?dt = Inr ?lines"
    by (simp add: LineForConstraint_def same_edges_def iq u5)
  from setup_fixes_sampling_interval_and_gravity[where FromFootholds = one_triangle and start_stance = "stance_at 0 0" and steps = "[]"
            and margins = "()" and CalcLines = same_edges and weight = "(1, 1)"
            and height_robot = "1 / 2" and start_cog_p = "(0, 0)" and start_cog_v = "(1, 0)",
          OF 1 2 3 4 5 6]
  obtain lines l st' where
      a: "LineForConstraint same_edges (m_zmp_splines ?st) [edge_x] ?dt = Inr lines"
      and b: "SetupQpMatrices one_triangle same_edges (0, 0) (1, 0) (stance_at 0 0) [] (1, 1) () (1 / 2) ?st
           = Inr st'"
      and c: "m_lines_for_constraint st' = lines"
      and d: "\<forall>c<length lines. \<forall>i<GetOptCoeffCount (m_zmp_splines ?st).
         coeffs (M (m_ineq st')) i c =
           fst (all_rows 9.81 (1 / 2) (m_zmp_splines ?st) (0, 0) (1, 0) lines ?dt ! c) i"
    by blast
  have lines: "lines = ?lines" using a L by (simp add: m)
  have wf: "wf_splines ?ss" by (simp add: wf_splines_def)
  have row: "all_rows 9.81 (1 / 2) ?ss (0, 0) (1, 0) ?lines ?dt ! (3 * (\<Sum>s\<leftarrow>take 0 ?ss. n_samples ?dt s) + 3 * 0 + 0)
        = built_row 9.81 (1 / 2) ?ss (0, 0) (1, 0) 0 (real 0 * ?dt)
            (?lines ! (3 * (\<Sum>s\<leftarrow>take 0 ?ss. n_samples ?dt s) + 3 * 0 + 0))"
    by (rule all_rows_nth[OF wf]) (simp_all add: fq)
  have "coeffs (M (m_ineq st')) 3 0 = fst (all_rows 9.81 (1 / 2) ?ss (0, 0) (1, 0) ?lines ?dt ! 0) 3"
    using d by (simp add: lines m GetOptCoeffCount_def idx)
  also have "\<dots> = fst (built_row 9.81 (1 / 2) ?ss (0, 0) (1, 0) 0 0 edge_x) 3"
    using row by simp
  also have "\<dots> = - ((1 / 2) / 9.81 * 2)"
    by (simp add: built_row_def zmp_lin_def zmp_own_def var_index_def idx edge_x_def)
  finally show ?thesis
    using 1 2 b c lines by blast
qed

end
